theory Spec2Isabelle
  imports Complex_Main
begin

section \<open>The HIGC tournament referee\<close>

text \<open>
  The referee thread of \<^verbatim>\<open>referee.cc\<close> is embedded as state-passing functions. The members of
  \<^verbatim>\<open>Referee\<close> that never change after construction (the game, the settings, the executables)
  are parameters; the members it mutates are the record \<open>Referee\<close>. What a bot answers in a
  read cycle reaches the referee through three accessors of its channel
  (\<^verbatim>\<open>response()\<close>, \<^verbatim>\<open>is_time_out()\<close>, \<^verbatim>\<open>has_read()\<close>); their values are inputs of the model
  (\<open>BotReply\<close>), one for each cycle of each bot, together with whether the reader task of
  the channel ever leaves its polling loop in that cycle: \<^verbatim>\<open>CancelReadBlocking()\<close> waits for
  the lock that the reader holds around the loop, and a call that waits for ever is the
  result \<open>NeverReturns\<close>. Draws of the random number generator are inputs as well. Bytes
  written to the bots and to the log are outputs that no function reads back, and are left
  out. The reader task and the read state of a channel are embedded separately in the last
  part of the definitions.

  C++ \<^verbatim>\<open>int\<close> counters are \<open>int\<close>: they start at zero and grow by one per event, and signed
  overflow is undefined in C++. \<^verbatim>\<open>double\<close> is \<open>real\<close> (exact arithmetic).
\<close>

subsection \<open>Error counters and settings\<close>

record BotErrors =
  protocol_error :: int
  illegal_actions :: int
  ponder_error :: int
  time_over :: int

definition BotErrors_init :: BotErrors where
  "BotErrors_init = \<lparr>protocol_error = 0, illegal_actions = 0, ponder_error = 0, time_over = 0\<rparr>"

definition Reset :: "BotErrors \<Rightarrow> BotErrors" where
  "Reset e = e\<lparr>protocol_error := 0, illegal_actions := 0, ponder_error := 0, time_over := 0\<rparr>"

definition total_errors :: "BotErrors \<Rightarrow> int" where
  "total_errors e = protocol_error e + illegal_actions e + ponder_error e + time_over e"

record TournamentSettings =
  timeout_ready :: int
  timeout_start :: int
  timeout_act :: int
  timeout_ponder :: int
  timeout_match_over :: int
  time_tournament_over :: int
  max_invalid_behaviors :: int
  disqualification_rate :: real

subsection \<open>Special messages\<close>

definition kReadyMessage :: string where "kReadyMessage = ''ready''"
definition kStartMessage :: string where "kStartMessage = ''start''"
definition kPonderMessage :: string where "kPonderMessage = ''ponder''"
definition kMatchOverMessage :: string where "kMatchOverMessage = ''match over''"
definition kTournamentOverMessage :: string where "kTournamentOverMessage = ''tournament over''"

subsection \<open>The referee's mutable state\<close>

text \<open>
  A pointer to a \<^verbatim>\<open>BotChannel\<close> is the object's identity: the bot index and the executable
  given to \<^verbatim>\<open>MakeBotChannel\<close>, and a serial number that tells two objects made with the
  same arguments apart (\<open>spawned\<close> counts the objects made so far). \<open>None\<close> is
  \<^verbatim>\<open>nullptr\<close>. A reader thread is represented by the pointer it was started with.
\<close>

record ChannelPtr =
  bot_index_of :: nat
  executable_of :: string
  serial :: nat

record Referee =
  channels :: "ChannelPtr option list"
  threads_stdout :: "ChannelPtr option list"
  threads_stderr :: "ChannelPtr option list"
  bot_errors :: "BotErrors list"
  spawned :: nat

definition Referee_init :: Referee where
  "Referee_init = \<lparr>channels = [], threads_stdout = [], threads_stderr = [],
                    bot_errors = [], spawned = 0\<rparr>"

definition MakeBotChannel :: "nat \<Rightarrow> string \<Rightarrow> nat \<Rightarrow> ChannelPtr" where
  "MakeBotChannel bot_index executable k =
     \<lparr>bot_index_of = bot_index, executable_of = executable, serial = k\<rparr>"

datatype error =
  SpielFatalError      \<comment> \<open>a failed \<^verbatim>\<open>SPIEL_CHECK\<close>: the referee aborts\<close>
| UndefinedBehaviour   \<comment> \<open>an index outside a vector, or a distribution over an empty range\<close>
| NeverReturns         \<comment> \<open>a wait for a reader task that never releases its lock\<close>
| OutOfTurns           \<comment> \<open>the inputs end before the loop does\<close>

text \<open>
  What the referee finds in a channel in one read cycle. \<open>cancel_returns\<close> tells whether
  \<^verbatim>\<open>CancelReadBlocking()\<close> returns in that cycle, that is, whether the reader leaves the
  polling loop and releases \<^verbatim>\<open>mx_read\<close>.
\<close>

record BotReply =
  response :: string
  is_time_out :: bool
  has_read :: bool
  cancel_returns :: bool

definition corrupted_match_due :: "TournamentSettings \<Rightarrow> Referee \<Rightarrow> nat \<Rightarrow> bool" where
  "corrupted_match_due s r pl =
     (total_errors (bot_errors r ! pl) > max_invalid_behaviors s
      \<or> protocol_error (bot_errors r ! pl) > 0)"

definition ResetErrorTracking :: "Referee \<Rightarrow> Referee" where
  "ResetErrorTracking r = r\<lparr>bot_errors := map Reset (bot_errors r)\<rparr>"

text \<open>
  \<^verbatim>\<open>CheckResponse\<close> first calls \<^verbatim>\<open>chn->CancelReadBlocking()\<close>, and reads the channel when that
  call has returned.
\<close>

definition CheckResponse ::
  "string \<Rightarrow> nat \<Rightarrow> BotReply \<Rightarrow> Referee \<Rightarrow> error + (bool \<times> Referee)" where
  "CheckResponse expected_response pl chn r =
     (if \<not> cancel_returns chn then Inl NeverReturns
      else if response chn \<noteq> expected_response then
        (let e1 = (bot_errors r ! pl)\<lparr>protocol_error := protocol_error (bot_errors r ! pl) + 1\<rparr>;
             e2 = (if is_time_out chn then e1\<lparr>time_over := time_over e1 + 1\<rparr> else e1)
         in Inr (False, r\<lparr>bot_errors := (bot_errors r)[pl := e2]\<rparr>))
      else Inr (True, r))"

fun CheckResponses_loop ::
  "string \<Rightarrow> (nat \<Rightarrow> BotReply) \<Rightarrow> nat list \<Rightarrow> bool list \<times> Referee \<Rightarrow>
   error + (bool list \<times> Referee)" where
  "CheckResponses_loop expected_response chns [] acc = Inr acc"
| "CheckResponses_loop expected_response chns (pl # pls) (response_ok, r) =
     (case CheckResponse expected_response pl (chns pl) r of
        Inl x \<Rightarrow> Inl x
      | Inr (ok, r1) \<Rightarrow>
          CheckResponses_loop expected_response chns pls (response_ok @ [ok], r1))"

definition CheckResponses ::
  "string \<Rightarrow> nat \<Rightarrow> (nat \<Rightarrow> BotReply) \<Rightarrow> Referee \<Rightarrow> error + (bool list \<times> Referee)" where
  "CheckResponses expected_response num_bots chns r =
     CheckResponses_loop expected_response chns [0..<num_bots] ([], r)"

subsection \<open>Starting and shutting down players\<close>

text \<open>
  The game engine is a collaborator outside the sources: the operations the referee calls
  on \<^verbatim>\<open>Game\<close> and \<^verbatim>\<open>State\<close>, the sampler \<^verbatim>\<open>SampleAction\<close> and the constant
  \<^verbatim>\<open>kInvalidAction\<close> are the fields of a record that every function takes as a parameter.
  \<open>FullHistory_size\<close> is \<^verbatim>\<open>FullHistory().size()\<close>.
\<close>

type_synonym Action = int

record 'st Game =
  NumPlayers :: int
  NewInitialState :: 'st
  IsTerminal :: "'st \<Rightarrow> bool"
  IsChanceNode :: "'st \<Rightarrow> bool"
  IsSimultaneousNode :: "'st \<Rightarrow> bool"
  IsPlayerActing :: "'st \<Rightarrow> nat \<Rightarrow> bool"
  LegalActions :: "'st \<Rightarrow> nat \<Rightarrow> Action list"
  ChanceOutcomes :: "'st \<Rightarrow> (Action \<times> real) list"
  SampleAction :: "(Action \<times> real) list \<Rightarrow> real \<Rightarrow> Action \<times> real"
  ApplyAction :: "'st \<Rightarrow> Action \<Rightarrow> 'st"
  ApplyActions :: "'st \<Rightarrow> Action list \<Rightarrow> 'st"
  CurrentPlayer :: "'st \<Rightarrow> int"
  Returns :: "'st \<Rightarrow> real list"
  FullHistory_size :: "'st \<Rightarrow> nat"
  kInvalidAction :: Action

text \<open>
  The first loop of \<^verbatim>\<open>StartPlayers\<close>: one iteration appends a fresh error record, a new
  channel and its two reader threads, both started with \<^verbatim>\<open>channels_.back().get()\<close>.
\<close>

definition launch_player :: "string list \<Rightarrow> nat \<Rightarrow> Referee \<Rightarrow> Referee" where
  "launch_player executables pl r =
     (let r1 = r\<lparr>bot_errors := bot_errors r @ [BotErrors_init]\<rparr>;
          r2 = r1\<lparr>channels := channels r1 @ [Some (MakeBotChannel pl (executables ! pl) (spawned r1))],
                  spawned := Suc (spawned r1)\<rparr>;
          r3 = r2\<lparr>threads_stdout := threads_stdout r2 @ [last (channels r2)]\<rparr>
      in r3\<lparr>threads_stderr := threads_stderr r3 @ [last (channels r3)]\<rparr>)"

definition StartPlayers ::
  "'st Game \<Rightarrow> string list \<Rightarrow> (nat \<Rightarrow> BotReply) \<Rightarrow> Referee \<Rightarrow> error + (bool list \<times> Referee)" where
  "StartPlayers g executables chns r =
     (if NumPlayers g \<noteq> int (length executables) then Inl SpielFatalError
      else CheckResponses kReadyMessage (length executables) chns
             (fold (launch_player executables) [0..<length executables] r))"

text \<open>
  \<^verbatim>\<open>StartPlayer(pl)\<close> overwrites slot \<open>pl\<close> of the three vectors. As in the source, the two
  threads are started with \<^verbatim>\<open>channels_.back().get()\<close>. The result of the ready check is
  returned with the new state.
\<close>

definition StartPlayer ::
  "string list \<Rightarrow> nat \<Rightarrow> BotReply \<Rightarrow> Referee \<Rightarrow> error + (bool \<times> Referee)" where
  "StartPlayer executables pl chn r =
     (let r1 = r\<lparr>channels := (channels r)[pl := Some (MakeBotChannel pl (executables ! pl) (spawned r))],
                 spawned := Suc (spawned r)\<rparr>;
          r2 = r1\<lparr>threads_stdout := (threads_stdout r1)[pl := last (channels r1)]\<rparr>;
          r3 = r2\<lparr>threads_stderr := (threads_stderr r2)[pl := last (channels r2)]\<rparr>
      in CheckResponse kReadyMessage pl chn r3)"

definition ShutDownPlayers :: "Referee \<Rightarrow> Referee" where
  "ShutDownPlayers r =
     r\<lparr>channels := [], threads_stdout := [], threads_stderr := [], bot_errors := []\<rparr>"

definition ShutDownPlayer :: "nat \<Rightarrow> Referee \<Rightarrow> Referee" where
  "ShutDownPlayer pl r =
     r\<lparr>channels := (channels r)[pl := None],
       threads_stdout := (threads_stdout r)[pl := None],
       threads_stderr := (threads_stderr r)[pl := None],
       bot_errors := (bot_errors r)[pl := Reset (bot_errors r ! pl)]\<rparr>"

definition RestartPlayer ::
  "string list \<Rightarrow> nat \<Rightarrow> BotReply \<Rightarrow> Referee \<Rightarrow> error + Referee" where
  "RestartPlayer executables pl chn r =
     (case StartPlayer executables pl chn (ShutDownPlayer pl r) of
        Inl x \<Rightarrow> Inl x
      | Inr (ok, r') \<Rightarrow> Inr r')"

subsection \<open>Parsing an acting bot's response\<close>

text \<open>
  \<^verbatim>\<open>strtol(response.c_str(), &end, 10)\<close> of the C library, on a platform whose \<^verbatim>\<open>long\<close> has 64
  bits and whose \<^verbatim>\<open>int\<close> has 32: white space is skipped, a sign is optional
  (\<open>signed_digits\<close> is the text after them), the longest run of decimal digits is the number,
  clamped to the range of \<^verbatim>\<open>long\<close>. The second component is
  the text from \<^verbatim>\<open>end\<close> on; with no digit at all the value is 0 and \<^verbatim>\<open>end\<close> is the start of the
  text. \<open>c_str\<close> is the text as C reads it, up to the first NUL byte; \<open>long_to_int\<close> is the
  narrowing of the assignment \<^verbatim>\<open>int action = strtol(...)\<close>.
\<close>

definition isspace :: "char \<Rightarrow> bool" where
  "isspace c = (c \<in> set [CHR '' '', CHR 0x09, CHR 0x0A, CHR 0x0B, CHR 0x0C, CHR 0x0D])"

definition isdigit :: "char \<Rightarrow> bool" where
  "isdigit c = (48 \<le> (of_char c :: nat) \<and> (of_char c :: nat) \<le> 57)"

definition decimal_value :: "string \<Rightarrow> int" where
  "decimal_value ds = foldl (\<lambda>v c. 10 * v + (int (of_char c) - 48)) 0 ds"

definition c_str :: "string \<Rightarrow> string" where
  "c_str s = takeWhile (\<lambda>c. c \<noteq> CHR 0x00) s"

definition clamp_long :: "int \<Rightarrow> int" where
  "clamp_long v = max (- (2 ^ 63)) (min (2 ^ 63 - 1) v)"

definition long_to_int :: "int \<Rightarrow> int" where
  "long_to_int v = (v + 2 ^ 31) mod 2 ^ 32 - 2 ^ 31"

definition signed_digits :: "string \<Rightarrow> string" where
  "signed_digits nptr =
     (case dropWhile isspace nptr of
        c # u \<Rightarrow> if c = CHR ''-'' \<or> c = CHR ''+'' then u else c # u
      | [] \<Rightarrow> [])"

definition negative_sign :: "string \<Rightarrow> bool" where
  "negative_sign nptr = (case dropWhile isspace nptr of c # u \<Rightarrow> c = CHR ''-'' | [] \<Rightarrow> False)"

definition strtol :: "string \<Rightarrow> int \<times> string" where
  "strtol nptr =
     (let u = signed_digits nptr;
          ds = takeWhile isdigit u
      in if ds = [] then (0, nptr)
         else (clamp_long (if negative_sign nptr then - decimal_value ds else decimal_value ds),
               dropWhile isdigit u))"

text \<open>
  The branches of \<^verbatim>\<open>PlayMatch\<close> that read an acting bot's channel (lines 332 to 361): the
  counters of the bot after them, and the value left in \<^verbatim>\<open>bot_actions[pl]\<close>.
\<close>

definition act_response ::
  "TournamentSettings \<Rightarrow> Action \<Rightarrow> Action list \<Rightarrow> BotReply \<Rightarrow> BotErrors \<Rightarrow> BotErrors \<times> Action" where
  "act_response s invalid legal_actions chn e =
     (if is_time_out chn then (e\<lparr>time_over := time_over e + 1\<rparr>, invalid)
      else if \<not> has_read chn then (e\<lparr>protocol_error := protocol_error e + 1\<rparr>, invalid)
      else
        (let (v, rest) = strtol (c_str (response chn));
             action = long_to_int v
         in if rest \<noteq> [] then (e\<lparr>protocol_error := protocol_error e + 1\<rparr>, invalid)
            else if action \<notin> set legal_actions
              then (e\<lparr>illegal_actions := illegal_actions e + 1\<rparr>, invalid)
            else if total_errors e > max_invalid_behaviors s then (e, invalid)
            else (e, action)))"

text \<open>
  Lines 363 to 367: a slot still holding \<^verbatim>\<open>kInvalidAction\<close> is filled with
  \<^verbatim>\<open>legal_actions[random_idx]\<close>, where \<open>random_idx\<close> is the draw from the uniform distribution
  on \<open>0 .. size - 1\<close>. With no legal action the distribution is undefined.
\<close>

definition pick_action :: "Action \<Rightarrow> Action list \<Rightarrow> nat \<Rightarrow> Action \<Rightarrow> error + Action" where
  "pick_action invalid legal_actions random_idx a =
     (if a = invalid then
        (if random_idx < length legal_actions then Inr (legal_actions ! random_idx)
         else Inl UndefinedBehaviour)
      else Inr a)"

subsection \<open>PlayMatch\<close>

text \<open>
  The inputs of one turn of the match loop: what each bot's channel holds when the referee
  reads it, the index drawn for each bot whose action is substituted, and the uniform draw
  given to \<^verbatim>\<open>SampleAction\<close> at a chance node. The shuffled order only decides the order of
  the writes.
\<close>

record TurnInput =
  replies :: "nat \<Rightarrow> BotReply"
  random_idx :: "nat \<Rightarrow> nat"
  chance_draw :: real

text \<open>Lines 289 to 304: the ponder check of a bot that is not acting.\<close>

definition ponder_response :: "BotReply \<Rightarrow> BotErrors \<Rightarrow> BotErrors" where
  "ponder_response chn e =
     (if response chn \<noteq> kPonderMessage then
        (let e1 = e\<lparr>ponder_error := ponder_error e + 1\<rparr>
         in if is_time_out chn then e1\<lparr>time_over := time_over e1 + 1\<rparr> else e1)
      else e)"

definition ponder_loop ::
  "'st Game \<Rightarrow> nat \<Rightarrow> TurnInput \<Rightarrow> 'st \<Rightarrow> BotErrors list \<Rightarrow> BotErrors list" where
  "ponder_loop g num_bots inp state errs =
     fold (\<lambda>pl errs. if IsPlayerActing g state pl then errs
                      else errs[pl := ponder_response (replies inp pl) (errs ! pl)])
          [0..<num_bots] errs"

text \<open>Lines 325 to 368: the loop that fills \<^verbatim>\<open>bot_actions\<close>.\<close>

fun parse_loop ::
  "'st Game \<Rightarrow> TournamentSettings \<Rightarrow> TurnInput \<Rightarrow> 'st \<Rightarrow> nat list \<Rightarrow>
   BotErrors list \<times> Action list \<Rightarrow> error + (BotErrors list \<times> Action list)" where
  "parse_loop g s inp state [] acc = Inr acc"
| "parse_loop g s inp state (pl # pls) (errs, bot_actions) =
     (if \<not> IsPlayerActing g state pl then parse_loop g s inp state pls (errs, bot_actions)
      else
        (let legal_actions = LegalActions g state pl;
             (e, a) = act_response s (kInvalidAction g) legal_actions (replies inp pl) (errs ! pl)
         in case pick_action (kInvalidAction g) legal_actions (random_idx inp pl) a of
              Inl x \<Rightarrow> Inl x
            | Inr a' \<Rightarrow> parse_loop g s inp state pls (errs[pl := e], bot_actions[pl := a'])))"

text \<open>Lines 373 to 386: the state after the actions are applied.\<close>

definition apply_step :: "'st Game \<Rightarrow> TurnInput \<Rightarrow> 'st \<Rightarrow> Action list \<Rightarrow> error + 'st" where
  "apply_step g inp state bot_actions =
     (if IsChanceNode g state then
        Inr (ApplyAction g state (fst (SampleAction g (ChanceOutcomes g state) (chance_draw inp))))
      else if IsSimultaneousNode g state then Inr (ApplyActions g state bot_actions)
      else
        (let cur = CurrentPlayer g state
         in if 0 \<le> cur \<and> nat cur < length bot_actions
            then Inr (ApplyAction g state (bot_actions ! nat cur))
            else Inl UndefinedBehaviour))"

text \<open>
  One iteration of the loop \<^verbatim>\<open>while (!state->IsTerminal())\<close>. Unless the turn is a chance
  node, the referee calls \<^verbatim>\<open>CancelReadBlocking()\<close> on every channel (line 321) after the
  ponder checks and before it parses the actions.
\<close>

definition play_turn ::
  "'st Game \<Rightarrow> TournamentSettings \<Rightarrow> nat \<Rightarrow> TurnInput \<Rightarrow> 'st \<times> BotErrors list \<Rightarrow>
   error + ('st \<times> BotErrors list)" where
  "play_turn g s num_bots inp = (\<lambda>(state, errs).
     (let errs1 = ponder_loop g num_bots inp state errs
      in if \<not> IsChanceNode g state
            \<and> \<not> list_all (\<lambda>pl. cancel_returns (replies inp pl)) [0..<num_bots]
         then Inl NeverReturns
         else
           (case parse_loop g s inp state [0..<num_bots]
                   (errs1, replicate num_bots (kInvalidAction g)) of
              Inl x \<Rightarrow> Inl x
            | Inr (errs', bot_actions) \<Rightarrow>
                (case apply_step g inp state bot_actions of
                   Inl x \<Rightarrow> Inl x
                 | Inr state' \<Rightarrow> Inr (state', errs')))))"

text \<open>
  The loop itself. A game need not end, so the loop runs on the list of the turns' inputs:
  when the list ends at a state that is not terminal the result is \<open>OutOfTurns\<close>.
\<close>

fun match_loop ::
  "'st Game \<Rightarrow> TournamentSettings \<Rightarrow> nat \<Rightarrow> TurnInput list \<Rightarrow> 'st \<times> BotErrors list \<Rightarrow>
   error + ('st \<times> BotErrors list)" where
  "match_loop g s num_bots [] (state, errs) =
     (if IsTerminal g state then Inr (state, errs) else Inl OutOfTurns)"
| "match_loop g s num_bots (inp # inps) (state, errs) =
     (if IsTerminal g state then Inr (state, errs)
      else case play_turn g s num_bots inp (state, errs) of
             Inl x \<Rightarrow> Inl x
           | Inr next \<Rightarrow> match_loop g s num_bots inps next)"

record MatchInput =
  start_replies :: "nat \<Rightarrow> BotReply"
  turns :: "TurnInput list"
  match_over_replies :: "nat \<Rightarrow> BotReply"
  restart_replies :: "nat \<Rightarrow> BotReply"

text \<open>
  \<^verbatim>\<open>PlayMatch\<close> reads \<^verbatim>\<open>returns[pl]\<close> for every bot when it sends the scores; a vector of
  returns shorter than the number of bots is an access outside it.
\<close>

definition PlayMatch ::
  "'st Game \<Rightarrow> TournamentSettings \<Rightarrow> nat \<Rightarrow> MatchInput \<Rightarrow> Referee \<Rightarrow> error + ('st \<times> Referee)" where
  "PlayMatch g s num_bots inp r =
     (if int num_bots \<noteq> NumPlayers g then Inl SpielFatalError
      else
        (case CheckResponses kStartMessage num_bots (start_replies inp) r of
           Inl x \<Rightarrow> Inl x
         | Inr (start_ok, r1) \<Rightarrow>
             (case match_loop g s num_bots (turns inp) (NewInitialState g, bot_errors r1) of
                Inl x \<Rightarrow> Inl x
              | Inr (state, errs) \<Rightarrow>
                  if length (Returns g state) < num_bots then Inl UndefinedBehaviour
                  else
                    (case CheckResponses kMatchOverMessage num_bots (match_over_replies inp)
                            (r1\<lparr>bot_errors := errs\<rparr>) of
                       Inl x \<Rightarrow> Inl x
                     | Inr (over_ok, r2) \<Rightarrow> Inr (state, r2)))))"

subsection \<open>Tournament results\<close>

record 'st MatchResult =
  terminal :: 'st
  errors :: "BotErrors list"

record 'st TournamentResults =
  num_bots_of :: nat
  returns_mean :: "real list"
  returns_agg :: "real list"
  corrupted_matches :: "int list"
  disqualified :: "bool list"
  restarts :: "int list"
  history_len_mean :: real
  matches :: "'st MatchResult list"

text \<open>
  The constructor \<^verbatim>\<open>TournamentResults(num_bots)\<close>. The members it does not name start
  empty (\<open>matches\<close>) and at zero (\<open>history_len_mean\<close>, whose first update overwrites it).
\<close>

definition TournamentResults_init :: "nat \<Rightarrow> 'st TournamentResults" where
  "TournamentResults_init num_bots =
     \<lparr>num_bots_of = num_bots,
      returns_mean = replicate num_bots 0,
      returns_agg = replicate num_bots 0,
      corrupted_matches = replicate num_bots 0,
      disqualified = replicate num_bots False,
      restarts = replicate num_bots 0,
      history_len_mean = 0,
      matches = []\<rparr>"

subsection \<open>PlayTournament\<close>

text \<open>Lines 539 to 547: the update of the running statistics after match number \<open>match\<close>.\<close>

definition update_returns :: "nat \<Rightarrow> real list \<Rightarrow> nat \<Rightarrow> 'st TournamentResults \<Rightarrow> 'st TournamentResults" where
  "update_returns match returns pl res =
     (let delta = returns ! pl - returns_mean res ! pl;
          res1 = res\<lparr>returns_mean := (returns_mean res)[pl := returns_mean res ! pl + delta / (real match + 1)]\<rparr>;
          delta2 = returns ! pl - returns_mean res1 ! pl
      in res1\<lparr>returns_agg := (returns_agg res1)[pl := returns_agg res1 ! pl + delta * delta2]\<rparr>)"

definition update_statistics ::
  "'st Game \<Rightarrow> nat \<Rightarrow> nat \<Rightarrow> 'st \<Rightarrow> 'st TournamentResults \<Rightarrow> 'st TournamentResults" where
  "update_statistics g num_bots match state res =
     fold (update_returns match (Returns g state)) [0..<num_bots]
       (res\<lparr>history_len_mean := history_len_mean res
               + (real (FullHistory_size g state) - history_len_mean res) / (real match + 1)\<rparr>)"

text \<open>
  Lines 549 to 565: the disqualification update. The first component of the result tells
  whether the loop left \<^verbatim>\<open>PlayTournament\<close> through \<^verbatim>\<open>return results\<close>.
\<close>

fun disqualification_update ::
  "TournamentSettings \<Rightarrow> string list \<Rightarrow> int \<Rightarrow> (nat \<Rightarrow> BotReply) \<Rightarrow> nat list \<Rightarrow>
   Referee \<times> 'st TournamentResults \<Rightarrow> error + (bool \<times> Referee \<times> 'st TournamentResults)" where
  "disqualification_update s executables corruption_threshold chns [] (r, res) =
     Inr (False, r, res)"
| "disqualification_update s executables corruption_threshold chns (pl # pls) (r, res) =
     (if \<not> corrupted_match_due s r pl
      then disqualification_update s executables corruption_threshold chns pls (r, res)
      else
        (let res1 = res\<lparr>corrupted_matches :=
                          (corrupted_matches res)[pl := corrupted_matches res ! pl + 1]\<rparr>
         in if corrupted_matches res1 ! pl > corruption_threshold
            then Inr (True, r, res1\<lparr>disqualified := (disqualified res1)[pl := True]\<rparr>)
            else
              (case RestartPlayer executables pl (chns pl) r of
                 Inl x \<Rightarrow> Inl x
               | Inr r' \<Rightarrow>
                   disqualification_update s executables corruption_threshold chns pls
                     (r', res1\<lparr>restarts := (restarts res1)[pl := restarts res1 ! pl + 1]\<rparr>))))"

text \<open>
  The loop over the matches, from match number \<open>match\<close> on. Each match takes its inputs
  from the head of the list.
\<close>

fun tournament_loop ::
  "'st Game \<Rightarrow> TournamentSettings \<Rightarrow> string list \<Rightarrow> int \<Rightarrow> int \<Rightarrow> nat \<Rightarrow> MatchInput list \<Rightarrow>
   Referee \<times> 'st TournamentResults \<Rightarrow> error + ('st TournamentResults \<times> Referee)" where
  "tournament_loop g s executables corruption_threshold num_matches match [] (r, res) =
     (if int match < num_matches then Inl OutOfTurns else Inr (res, r))"
| "tournament_loop g s executables corruption_threshold num_matches match (inp # inps) (r, res) =
     (if int match < num_matches then
        (case PlayMatch g s (length executables) inp (ResetErrorTracking r) of
           Inl x \<Rightarrow> Inl x
         | Inr (state, r1) \<Rightarrow>
             (case disqualification_update s executables corruption_threshold (restart_replies inp)
                     [0..<length executables]
                     (r1, update_statistics g (length executables) match state res) of
                Inl x \<Rightarrow> Inl x
              | Inr (True, r2, res2) \<Rightarrow> Inr (res2, r2)
              | Inr (False, r2, res2) \<Rightarrow>
                  tournament_loop g s executables corruption_threshold num_matches (Suc match) inps
                    (r2, res2\<lparr>matches := matches res2 @ [\<lparr>terminal = state, errors = bot_errors r2\<rparr>]\<rparr>)))
      else Inr (res, r))"

text \<open>The conversion of a \<^verbatim>\<open>double\<close> to \<^verbatim>\<open>int\<close> drops the fraction.\<close>

definition double_to_int :: "real \<Rightarrow> int" where
  "double_to_int x = (if 0 \<le> x then \<lfloor>x\<rfloor> else \<lceil>x\<rceil>)"

record TournamentInput =
  ready_replies :: "nat \<Rightarrow> BotReply"
  match_inputs :: "MatchInput list"

text \<open>Lines 513 to 517: the loop over the results of \<^verbatim>\<open>StartPlayers\<close>.\<close>

definition start_check ::
  "bool list \<Rightarrow> int \<Rightarrow> nat \<Rightarrow> bool \<times> 'st TournamentResults \<Rightarrow> bool \<times> 'st TournamentResults" where
  "start_check start_ok num_matches pl = (\<lambda>(all_ok, res).
     (all_ok \<and> start_ok ! pl,
      if \<not> start_ok ! pl
      then res\<lparr>corrupted_matches := (corrupted_matches res)[pl := num_matches]\<rparr> else res))"

definition PlayTournament ::
  "'st Game \<Rightarrow> TournamentSettings \<Rightarrow> string list \<Rightarrow> TournamentInput \<Rightarrow> int \<Rightarrow> Referee \<Rightarrow>
   error + ('st TournamentResults \<times> Referee)" where
  "PlayTournament g s executables inp num_matches r =
     (case StartPlayers g executables (ready_replies inp) r of
        Inl x \<Rightarrow> Inl x
      | Inr (start_ok, r1) \<Rightarrow>
          (let (all_ok, results) =
                 fold (start_check start_ok num_matches) [0..<length executables]
                   (True, TournamentResults_init (length executables))
           in if \<not> all_ok then Inr (results, r1)
              else tournament_loop g s executables
                     (double_to_int (real_of_int num_matches * disqualification_rate s))
                     num_matches 0 (match_inputs inp) (r1, results)))"

subsection \<open>The read state of a channel and its reader task\<close>

text \<open>
  The members of \<^verbatim>\<open>BotChannel\<close> that \<^verbatim>\<open>StartRead\<close>, \<^verbatim>\<open>CancelReadBlocking\<close>, \<^verbatim>\<open>ShutDown\<close> and
  \<^verbatim>\<open>ReadLineFromChannelStdout\<close> use; \<open>response_slot\<close> is \<^verbatim>\<open>response_\<close>.
\<close>

record BotChannel =
  response_slot :: string
  buf :: string
  time_out :: bool
  time_limit :: int
  wait_for_message :: bool
  cancel_read :: bool
  shutdown :: bool

definition StartRead :: "int \<Rightarrow> BotChannel \<Rightarrow> error + BotChannel" where
  "StartRead limit c =
     (if shutdown c then Inl SpielFatalError
      else if \<not> wait_for_message c then Inl SpielFatalError
      else Inr (c\<lparr>time_limit := limit, time_out := False, cancel_read := False,
                  wait_for_message := False\<rparr>))"

definition CancelReadBlocking :: "BotChannel \<Rightarrow> BotChannel" where
  "CancelReadBlocking c = c\<lparr>cancel_read := True\<rparr>"

definition ShutDown :: "BotChannel \<Rightarrow> BotChannel" where
  "ShutDown c = c\<lparr>shutdown := True, cancel_read := True\<rparr>"

text \<open>
  The descriptor is the list of what the successive calls \<^verbatim>\<open>read(read_fd, &c, 1)\<close> return:
  one byte, 0, or -1 (the variant of \<^verbatim>\<open>utils.cc\<close> is the same loop over \<^verbatim>\<open>readsome\<close>, which
  returns one byte or 0). The loop of \<^verbatim>\<open>getline_async\<close> goes on while the count is not 0 and no
  line is complete, so it need not end; when the list ends first the result is \<open>None\<close>.
  The result holds \<^verbatim>\<open>line_read\<close>, \<^verbatim>\<open>line_out\<close>, \<^verbatim>\<open>buf\<close> and the calls not made yet.
\<close>

datatype read_result = ReadByte char | ReadZero | ReadError

fun getline_loop ::
  "read_result list \<Rightarrow> string \<times> string \<Rightarrow> (bool \<times> string \<times> string \<times> read_result list) option" where
  "getline_loop [] (line_out, b) = None"
| "getline_loop (ReadByte c # fd) (line_out, b) =
     (if c = CHR 0x0A then Some (True, b, [], fd) else getline_loop fd (line_out, b @ [c]))"
| "getline_loop (ReadZero # fd) (line_out, b) = Some (False, line_out, b, fd)"
| "getline_loop (ReadError # fd) (line_out, b) = getline_loop fd (line_out, b)"

definition getline_async ::
  "read_result list \<Rightarrow> string \<Rightarrow> string \<Rightarrow> (bool \<times> string \<times> string \<times> read_result list) option" where
  "getline_async read_fd line_out b = getline_loop read_fd ([], b)"

text \<open>
  One pass through the body of the outer loop of \<^verbatim>\<open>ReadLineFromChannelStdout\<close>, entered when
  \<^verbatim>\<open>wait_for_message_\<close> is false. At each poll the reader sees the clock and the two flags
  that the referee sets from its own thread. The first component of the result tells
  whether the thread returned (shutdown seen) before the end of the pass.
\<close>

record PollInput =
  time_elapsed :: int
  cancel_seen :: bool
  shutdown_seen :: bool

fun read_loop ::
  "PollInput list \<Rightarrow> read_result list \<Rightarrow> BotChannel \<Rightarrow> (bool \<times> BotChannel \<times> read_result list) option" where
  "read_loop [] fd c = None"
| "read_loop (p # ps) fd c =
     (case getline_async fd (response_slot c) (buf c) of
        None \<Rightarrow> None
      | Some (line_read, line_out, b, fd') \<Rightarrow>
          (let c1 = c\<lparr>response_slot := line_out, buf := b\<rparr>
           in if line_read then Some (False, c1, fd')
              else
                (let c2 = c1\<lparr>time_out := (time_elapsed p > time_limit c1)\<rparr>
                 in if time_out c2 then Some (False, c2, fd')
                    else if cancel_seen p then Some (False, c2\<lparr>cancel_read := True\<rparr>, fd')
                    else if shutdown_seen p then Some (True, c2\<lparr>shutdown := True\<rparr>, fd')
                    else read_loop ps fd' c2)))"

definition read_cycle ::
  "PollInput list \<Rightarrow> read_result list \<Rightarrow> BotChannel \<Rightarrow> (bool \<times> BotChannel \<times> read_result list) option" where
  "read_cycle ps fd c =
     (case read_loop ps fd c of
        None \<Rightarrow> None
      | Some (returned, c', fd') \<Rightarrow>
          Some (returned, if returned then c' else c'\<lparr>wait_for_message := True\<rparr>, fd'))"

subsection \<open>Notions of the specification\<close>

text \<open>The arithmetic mean and the population variance of a list of returns.\<close>

definition mean :: "real list \<Rightarrow> real" where
  "mean xs = sum_list xs / real (length xs)"

definition population_variance :: "real list \<Rightarrow> real" where
  "population_variance xs = (\<Sum>x\<leftarrow>xs. (x - mean xs)\<^sup>2) / real (length xs)"

text \<open>
  The terminal states of the matches that a run of the tournament loop plays, in order.
  The function follows \<open>tournament_loop\<close> step by step and collects what \<open>PlayMatch\<close>
  returns; it exists to state properties of the run, the source has no such value.
\<close>

fun played_states ::
  "'st Game \<Rightarrow> TournamentSettings \<Rightarrow> string list \<Rightarrow> int \<Rightarrow> int \<Rightarrow> nat \<Rightarrow> MatchInput list \<Rightarrow>
   Referee \<times> 'st TournamentResults \<Rightarrow> 'st list" where
  "played_states g s executables corruption_threshold num_matches match [] (r, res) = []"
| "played_states g s executables corruption_threshold num_matches match (inp # inps) (r, res) =
     (if int match < num_matches then
        (case PlayMatch g s (length executables) inp (ResetErrorTracking r) of
           Inl x \<Rightarrow> []
         | Inr (state, r1) \<Rightarrow>
             state #
             (case disqualification_update s executables corruption_threshold (restart_replies inp)
                     [0..<length executables]
                     (r1, update_statistics g (length executables) match state res) of
                Inl x \<Rightarrow> []
              | Inr (True, r2, res2) \<Rightarrow> []
              | Inr (False, r2, res2) \<Rightarrow>
                  played_states g s executables corruption_threshold num_matches (Suc match) inps
                    (r2, res2\<lparr>matches := matches res2 @ [\<lparr>terminal = state, errors = bot_errors r2\<rparr>]\<rparr>)))
      else [])"

definition PlayTournament_played ::
  "'st Game \<Rightarrow> TournamentSettings \<Rightarrow> string list \<Rightarrow> TournamentInput \<Rightarrow> int \<Rightarrow> Referee \<Rightarrow> 'st list" where
  "PlayTournament_played g s executables inp num_matches r =
     (case StartPlayers g executables (ready_replies inp) r of
        Inl x \<Rightarrow> []
      | Inr (start_ok, r1) \<Rightarrow>
          (let (all_ok, results) =
                 fold (start_check start_ok num_matches) [0..<length executables]
                   (True, TournamentResults_init (length executables))
           in if \<not> all_ok then []
              else played_states g s executables
                     (double_to_int (real_of_int num_matches * disqualification_rate s))
                     num_matches 0 (match_inputs inp) (r1, results)))"

text \<open>
  Two devices of the proofs about the running statistics: the update of one bot's mean and
  aggregate as a function on the pair, and the relation between such a pair and the
  returns folded into it so far.
\<close>

definition welford :: "nat \<Rightarrow> real \<Rightarrow> real \<times> real \<Rightarrow> real \<times> real" where
  "welford match x = (\<lambda>(m, a). (m + (x - m) / (real match + 1),
                              a + (x - m) * (x - (m + (x - m) / (real match + 1)))))"

definition stat_inv :: "real list \<Rightarrow> real \<times> real \<Rightarrow> bool" where
  "stat_inv xs = (\<lambda>(m, a). m * real (length xs) = sum_list xs
                    \<and> a = (\<Sum>x\<leftarrow>xs. x\<^sup>2) - real (length xs) * m\<^sup>2)"

text \<open>
  The classification of an acting bot's answer in the words of the specification. A decimal
  integer is read generously: white space and a sign may come first, then one digit or
  more and nothing else; \<open>integer_value\<close> is the number it denotes.
\<close>

definition decimal_integer :: "string \<Rightarrow> bool" where
  "decimal_integer text = (signed_digits text \<noteq> [] \<and> list_all isdigit (signed_digits text))"

definition integer_value :: "string \<Rightarrow> int" where
  "integer_value text =
     (if negative_sign text then - decimal_value (signed_digits text)
      else decimal_value (signed_digits text))"

datatype response_class = TimedOut | NoResponse | NotANumber | IllegalAction | LegalAction

definition classify :: "Action list \<Rightarrow> BotReply \<Rightarrow> response_class" where
  "classify legal_actions chn =
     (if is_time_out chn then TimedOut
      else if \<not> has_read chn then NoResponse
      else if \<not> decimal_integer (response chn) then NotANumber
      else if integer_value (response chn) \<notin> set legal_actions then IllegalAction
      else LegalAction)"

fun counted :: "response_class \<Rightarrow> BotErrors \<Rightarrow> BotErrors" where
  "counted TimedOut e = e\<lparr>time_over := time_over e + 1\<rparr>"
| "counted NoResponse e = e\<lparr>protocol_error := protocol_error e + 1\<rparr>"
| "counted NotANumber e = e\<lparr>protocol_error := protocol_error e + 1\<rparr>"
| "counted IllegalAction e = e\<lparr>illegal_actions := illegal_actions e + 1\<rparr>"
| "counted LegalAction e = e"

text \<open>The bytes among the results of a sequence of \<^verbatim>\<open>read\<close> calls.\<close>

fun bytes_of :: "read_result list \<Rightarrow> string" where
  "bytes_of [] = []"
| "bytes_of (ReadByte c # rs) = c # bytes_of rs"
| "bytes_of (ReadZero # rs) = bytes_of rs"
| "bytes_of (ReadError # rs) = bytes_of rs"

subsection \<open>Concrete games and inputs\<close>

text \<open>
  Two small games and the replies of well-behaved and misbehaving bots, used to run the
  definitions on concrete tournaments. A state is the list of the actions applied so far;
  both games end after one move, and each player may play 0 or 1. \<open>solo_game\<close> has one
  player, whose return is the action played; \<open>duel_game\<close> has two players who move at the
  same time, and a player's return is its action minus the opponent's.
\<close>

definition solo_game :: "Action list Game" where
  "solo_game = \<lparr>NumPlayers = 1, NewInitialState = [], IsTerminal = (\<lambda>st. st \<noteq> []),
     IsChanceNode = (\<lambda>st. False), IsSimultaneousNode = (\<lambda>st. False),
     IsPlayerActing = (\<lambda>st pl. pl = 0), LegalActions = (\<lambda>st pl. [0, 1]),
     ChanceOutcomes = (\<lambda>st. []), SampleAction = (\<lambda>outcomes z. (0, 1)),
     ApplyAction = (\<lambda>st a. st @ [a]), ApplyActions = (\<lambda>st as. st @ as),
     CurrentPlayer = (\<lambda>st. 0), Returns = (\<lambda>st. [real_of_int (sum_list st)]),
     FullHistory_size = length, kInvalidAction = - 1\<rparr>"

definition duel_game :: "Action list Game" where
  "duel_game = \<lparr>NumPlayers = 2, NewInitialState = [], IsTerminal = (\<lambda>st. st \<noteq> []),
     IsChanceNode = (\<lambda>st. False), IsSimultaneousNode = (\<lambda>st. True),
     IsPlayerActing = (\<lambda>st pl. pl < 2), LegalActions = (\<lambda>st pl. [0, 1]),
     ChanceOutcomes = (\<lambda>st. []), SampleAction = (\<lambda>outcomes z. (0, 1)),
     ApplyAction = (\<lambda>st a. st @ [a]), ApplyActions = (\<lambda>st as. st @ as),
     CurrentPlayer = (\<lambda>st. - 2),
     Returns = (\<lambda>st. case st of a # b # _ \<Rightarrow> [real_of_int (a - b), real_of_int (b - a)]
                         | _ \<Rightarrow> [0, 0]),
     FullHistory_size = length, kInvalidAction = - 1\<rparr>"

definition says :: "string \<Rightarrow> BotReply" where
  "says x = \<lparr>response = x, is_time_out = False, has_read = True, cancel_returns = True\<rparr>"

definition half_settings :: TournamentSettings where
  "half_settings = \<lparr>timeout_ready = 200, timeout_start = 100, timeout_act = 100,
     timeout_ponder = 50, timeout_match_over = 100, time_tournament_over = 100,
     max_invalid_behaviors = 1, disqualification_rate = 1 / 2\<rparr>"

text \<open>
  A match in which every bot answers \<open>start_text\<close> where \<open>start\<close> is due and \<open>action_text\<close>
  when it has to act, acknowledges the end of the match, and answers \<open>ready\<close> if it is
  restarted.
\<close>

definition match_where :: "string \<Rightarrow> string \<Rightarrow> MatchInput" where
  "match_where start_text action_text =
     \<lparr>start_replies = (\<lambda>pl. says start_text),
      turns = [\<lparr>replies = (\<lambda>pl. says action_text), random_idx = (\<lambda>pl. 0), chance_draw = 0\<rparr>],
      match_over_replies = (\<lambda>pl. says ''match over''),
      restart_replies = (\<lambda>pl. says ''ready'')\<rparr>"

definition good_match :: MatchInput where
  "good_match = match_where ''start'' ''0''"

definition bad_match :: MatchInput where
  "bad_match = match_where ''banana'' ''0''"

text \<open>Scenario 3 of the specification: Bot#1 answers \<open>banana\<close> to the handshake.\<close>

definition scenario3 :: TournamentInput where
  "scenario3 = \<lparr>ready_replies = (\<lambda>pl. if pl = 1 then says ''banana'' else says ''ready''),
     match_inputs = [good_match, good_match]\<rparr>"

text \<open>Scenario 4 of the specification: the bot corrupts the first two of three matches.\<close>

definition scenario4 :: TournamentInput where
  "scenario4 = \<lparr>ready_replies = (\<lambda>pl. says ''ready''),
     match_inputs = [bad_match, bad_match, good_match]\<rparr>"

text \<open>A tournament of one match that every bot corrupts.\<close>

definition one_bad_match :: TournamentInput where
  "one_bad_match = \<lparr>ready_replies = (\<lambda>pl. says ''ready''), match_inputs = [bad_match]\<rparr>"

text \<open>A tournament of two clean matches, in which the bots play 0 and then 1.\<close>

definition zero_then_one :: TournamentInput where
  "zero_then_one = \<lparr>ready_replies = (\<lambda>pl. says ''ready''),
     match_inputs = [match_where ''start'' ''0'', match_where ''start'' ''1'']\<rparr>"

text \<open>
  A tournament of three matches in which the bot corrupts the first match only, and
  answers \<open>ready\<close> when it is restarted.
\<close>

definition bad_then_good :: TournamentInput where
  "bad_then_good = \<lparr>ready_replies = (\<lambda>pl. says ''ready''),
     match_inputs = [bad_match, good_match, good_match]\<rparr>"

text \<open>A turn in which Bot#0 answers 1 and every other bot answers 7, which is not legal.\<close>

definition mixed_turn :: TurnInput where
  "mixed_turn = \<lparr>replies = (\<lambda>pl. if pl = 0 then says ''1'' else says ''7''),
     random_idx = (\<lambda>pl. 0), chance_draw = 0\<rparr>"

text \<open>A line that holds one NUL byte, read in time.\<close>

definition nul_line :: BotReply where
  "nul_line = \<lparr>response = [CHR 0x00], is_time_out = False, has_read = True,
                cancel_returns = True\<rparr>"

definition nul_turn :: TurnInput where
  "nul_turn = \<lparr>replies = (\<lambda>pl. nul_line), random_idx = (\<lambda>pl. 1), chance_draw = 0\<rparr>"

text \<open>
  A channel between two cycles whose slot still holds the \<open>ponder\<close> of the last cycle, and
  a poll at 60 ms at which the referee has set no flag.
\<close>

definition idle_channel :: BotChannel where
  "idle_channel = \<lparr>response_slot = ''ponder'', buf = [], time_out = False, time_limit = 50,
     wait_for_message = True, cancel_read = True, shutdown = False\<rparr>"

definition late_poll :: PollInput where
  "late_poll = \<lparr>time_elapsed = 60, cancel_seen = False, shutdown_seen = False\<rparr>"

text \<open>
  The reply of a bot that writes nothing and keeps its stdout open, after \<open>n\<close> calls of
  \<^verbatim>\<open>read\<close> and the polls \<open>ps\<close> of its reader task on the channel \<open>c\<close>: every \<^verbatim>\<open>read\<close> returns -1,
  and the cycle closes when the reader leaves its loop. In \<open>silent_handshake\<close> Bot#1 is such
  a bot, and Bot#0 answers \<open>banana\<close>.
\<close>

definition silent_reply :: "PollInput list \<Rightarrow> nat \<Rightarrow> BotChannel \<Rightarrow> BotReply" where
  "silent_reply ps n c =
     \<lparr>response = response_slot c, is_time_out = time_out c, has_read = False,
      cancel_returns = (read_cycle ps (replicate n ReadError) c \<noteq> None)\<rparr>"

definition silent_handshake :: "PollInput list \<Rightarrow> nat \<Rightarrow> BotChannel \<Rightarrow> TournamentInput" where
  "silent_handshake ps n c =
     \<lparr>ready_replies = (\<lambda>pl. if pl = 1 then silent_reply ps n c else says ''banana''),
      match_inputs = [good_match, good_match]\<rparr>"

lemmas concrete_defs =
  solo_game_def duel_game_def says_def half_settings_def match_where_def good_match_def
  bad_match_def

lemmas referee_defs =
  PlayTournament_def StartPlayers_def Referee_init_def launch_player_def CheckResponses_def
  CheckResponse_def kReadyMessage_def kStartMessage_def kMatchOverMessage_def kPonderMessage_def
  MakeBotChannel_def BotErrors_init_def start_check_def TournamentResults_init_def
  double_to_int_def PlayMatch_def ResetErrorTracking_def Reset_def play_turn_def
  ponder_loop_def ponder_response_def act_response_def strtol_def signed_digits_def
  negative_sign_def c_str_def isspace_def
  isdigit_def decimal_value_def clamp_long_def long_to_int_def pick_action_def apply_step_def
  update_statistics_def update_returns_def corrupted_match_due_def total_errors_def
  RestartPlayer_def StartPlayer_def ShutDownPlayer_def

section \<open>Properties\<close>

subsection \<open>The corruption criterion\<close>

text \<open>
  C6. For every bot \<open>pl\<close>, \<open>corrupted_match_due pl\<close> holds exactly when the sum of the bot's
  four counters exceeds \<open>max_invalid_behaviors\<close> or its \<open>protocol_error\<close> counter is
  positive; so a single protocol error makes the match corrupted for that bot, whatever
  \<open>max_invalid_behaviors\<close> is.
\<close>

theorem corrupted_match_due_iff:
  "(corrupted_match_due s r pl \<longleftrightarrow>
      protocol_error (bot_errors r ! pl) + illegal_actions (bot_errors r ! pl)
        + ponder_error (bot_errors r ! pl) + time_over (bot_errors r ! pl) > max_invalid_behaviors s
      \<or> protocol_error (bot_errors r ! pl) > 0)
   \<and> (protocol_error (bot_errors r ! pl) > 0 \<longrightarrow> corrupted_match_due s r pl)"
  by (auto simp: corrupted_match_due_def total_errors_def)

theorem corrupted_match_due_iff_witness:
  "corrupted_match_due (half_settings\<lparr>max_invalid_behaviors := 1000\<rparr>)
     (Referee_init\<lparr>bot_errors := [BotErrors_init\<lparr>protocol_error := 1\<rparr>]\<rparr>) 0
   \<and> \<not> corrupted_match_due half_settings
         (Referee_init\<lparr>bot_errors := [BotErrors_init\<lparr>time_over := 1\<rparr>]\<rparr>) 0
   \<and> corrupted_match_due half_settings
         (Referee_init\<lparr>bot_errors := [BotErrors_init\<lparr>time_over := 1, ponder_error := 1\<rparr>]\<rparr>) 0"
  using
    corrupted_match_due_iff [of "half_settings\<lparr>max_invalid_behaviors := 1000\<rparr>"
      "Referee_init\<lparr>bot_errors := [BotErrors_init\<lparr>protocol_error := 1\<rparr>]\<rparr>" 0]
    corrupted_match_due_iff [of half_settings
      "Referee_init\<lparr>bot_errors := [BotErrors_init\<lparr>time_over := 1\<rparr>]\<rparr>" 0]
    corrupted_match_due_iff [of half_settings
      "Referee_init\<lparr>bot_errors := [BotErrors_init\<lparr>time_over := 1, ponder_error := 1\<rparr>]\<rparr>" 0]
  by (simp add: half_settings_def Referee_init_def BotErrors_init_def)

text \<open>
  So one answer that is not the expected literal makes the match corrupted for the bot,
  whatever the settings are.
\<close>

lemma CheckResponse_corrupts:
  assumes "CheckResponse expected_response pl chn r = Inr (ok, r')"
    and "response chn \<noteq> expected_response" and "pl < length (bot_errors r)"
    and "0 \<le> protocol_error (bot_errors r ! pl)"
  shows "corrupted_match_due s r' pl"
  using assms
  by (auto simp: CheckResponse_def corrupted_match_due_def Let_def split: if_splits)

subsection \<open>A failed handshake\<close>

lemma CheckResponses_loop_fst:
  "CheckResponses_loop expected chns pls (oks, r) = Inr (oks', r') \<Longrightarrow>
   oks' = oks @ map (\<lambda>pl. response (chns pl) = expected) pls"
proof (induction pls arbitrary: oks r)
  case Nil
  then show ?case by simp
next
  case (Cons pl pls)
  from Cons.prems obtain ok r1 where
    one: "CheckResponse expected pl (chns pl) r = Inr (ok, r1)"
    and rest: "CheckResponses_loop expected chns pls (oks @ [ok], r1) = Inr (oks', r')"
    by (auto split: sum.splits)
  from one have "ok = (response (chns pl) = expected)"
    by (auto simp: CheckResponse_def Let_def split: if_splits)
  with Cons.IH [OF rest] show ?case by simp
qed

lemma CheckResponses_fst:
  "CheckResponses expected n chns r = Inr (oks, r') \<Longrightarrow>
   oks = map (\<lambda>pl. response (chns pl) = expected) [0..<n]"
  using CheckResponses_loop_fst [of expected chns "[0..<n]" "[]" r oks r']
  by (simp add: CheckResponses_def)

text \<open>
  \<^verbatim>\<open>CheckResponses\<close> returns when the read cycle of every bot closes, and waits for ever
  as soon as one does not.
\<close>

lemma CheckResponses_loop_returns:
  "\<forall>pl \<in> set pls. cancel_returns (chns pl) \<Longrightarrow>
   \<exists>oks' r'. CheckResponses_loop expected chns pls (oks, r) = Inr (oks', r')"
  by (induction pls arbitrary: oks r) (auto simp: CheckResponse_def Let_def)

lemma CheckResponses_returns:
  "\<forall>pl < n. cancel_returns (chns pl) \<Longrightarrow>
   \<exists>oks r'. CheckResponses expected n chns r = Inr (oks, r')"
  using CheckResponses_loop_returns [of "[0..<n]" chns expected "[]" r]
  by (simp add: CheckResponses_def)

lemma CheckResponses_loop_waits:
  "\<exists>pl \<in> set pls. \<not> cancel_returns (chns pl) \<Longrightarrow>
   CheckResponses_loop expected chns pls (oks, r) = Inl NeverReturns"
  by (induction pls arbitrary: oks r) (auto simp: CheckResponse_def Let_def)

lemma CheckResponses_waits:
  "\<exists>pl < n. \<not> cancel_returns (chns pl) \<Longrightarrow>
   CheckResponses expected n chns r = Inl NeverReturns"
  unfolding CheckResponses_def
  by (rule CheckResponses_loop_waits) auto

lemma fold_start_check_fst:
  "fst (fold (start_check ok nm) pls (a, res)) = (a \<and> (\<forall>pl \<in> set pls. ok ! pl))"
  by (induction pls arbitrary: a res) (auto simp: start_check_def)

lemma fold_start_check_matches:
  "matches (snd (fold (start_check ok nm) pls (a, res))) = matches res"
  by (induction pls arbitrary: a res) (auto simp: start_check_def)

lemma fold_start_check_disqualified:
  "disqualified (snd (fold (start_check ok nm) pls (a, res))) = disqualified res"
  by (induction pls arbitrary: a res) (auto simp: start_check_def)

lemma fold_start_check_restarts:
  "restarts (snd (fold (start_check ok nm) pls (a, res))) = restarts res"
  by (induction pls arbitrary: a res) (auto simp: start_check_def)

lemma fold_start_check_length:
  "length (corrupted_matches (snd (fold (start_check ok nm) pls (a, res)))) = length (corrupted_matches res)"
  by (induction pls arbitrary: a res) (auto simp: start_check_def)

lemma fold_start_check_corrupted:
  "pl < length (corrupted_matches res) \<Longrightarrow>
   corrupted_matches (snd (fold (start_check ok nm) pls (a, res))) ! pl =
     (if pl \<in> set pls \<and> \<not> ok ! pl then nm else corrupted_matches res ! pl)"
proof (induction pls arbitrary: a res)
  case Nil
  then show ?case by simp
next
  case (Cons q pls)
  show ?case
  proof (cases "ok ! q")
    case True
    then have "start_check ok nm q (a, res) = (a, res)"
      by (simp add: start_check_def)
    with Cons True show ?thesis by auto
  next
    case False
    let ?res = "res\<lparr>corrupted_matches := (corrupted_matches res)[q := nm]\<rparr>"
    from False have step: "start_check ok nm q (a, res) = (False, ?res)"
      by (simp add: start_check_def)
    have len: "pl < length (corrupted_matches ?res)"
      using Cons.prems by simp
    have unfold: "snd (fold (start_check ok nm) (q # pls) (a, res)) =
        snd (fold (start_check ok nm) pls (False, ?res))"
      by (simp add: step)
    show ?thesis
    proof (cases "q = pl")
      case True
      with Cons.prems False show ?thesis
        unfolding unfold Cons.IH [OF len, of False] by simp
    next
      case neq: False
      then have "(corrupted_matches res)[q := nm] ! pl = corrupted_matches res ! pl"
        by simp
      with neq show ?thesis
        unfolding unfold Cons.IH [OF len, of False] by simp
    qed
  qed
qed

text \<open>
  When the read cycle of every bot's handshake closes and some bot has not answered
  \<open>ready\<close>, \<open>PlayTournament\<close> sets \<open>corrupted_matches[pl]\<close> to \<open>num_matches\<close> for every
  failing bot, leaves it at 0 for the bots that answered \<open>ready\<close>, plays no match (none is
  played or recorded, and the inputs of the matches are not read) and returns the results.
\<close>

lemma ready_failure_returns:
  assumes players: "NumPlayers g = int (length executables)"
    and closes: "\<forall>pl < length executables. cancel_returns (ready_replies inp pl)"
    and failed: "\<exists>pl < length executables. response (ready_replies inp pl) \<noteq> kReadyMessage"
  shows "\<exists>res r'. PlayTournament g s executables inp num_matches r = Inr (res, r')
           \<and> PlayTournament g s executables (inp\<lparr>match_inputs := []\<rparr>) num_matches r = Inr (res, r')
           \<and> PlayTournament_played g s executables inp num_matches r = []
           \<and> matches res = []
           \<and> (\<forall>pl < length executables. corrupted_matches res ! pl =
                  (if response (ready_replies inp pl) = kReadyMessage then 0 else num_matches))"
proof -
  let ?n = "length executables"
  from CheckResponses_returns [OF closes] obtain ok r1 where
    started: "CheckResponses kReadyMessage ?n (ready_replies inp)
                (fold (launch_player executables) [0..<?n] r) = Inr (ok, r1)"
    by blast
  let ?init = "TournamentResults_init ?n :: 'a TournamentResults"
  let ?checked = "fold (start_check ok num_matches) [0..<?n] (True, ?init)"
  have start: "StartPlayers g executables (ready_replies inp) r = Inr (ok, r1)"
    using players started by (simp add: StartPlayers_def)
  have ok: "ok = map (\<lambda>pl. response (ready_replies inp pl) = kReadyMessage) [0..<?n]"
    using started by (rule CheckResponses_fst)
  from failed obtain q where q: "q < ?n" "\<not> ok ! q"
    by (auto simp: ok)
  then have not_all: "\<not> fst ?checked"
    by (auto simp: fold_start_check_fst)
  have run: "PlayTournament g s executables inp' num_matches r = Inr (snd ?checked, r1)"
    if "ready_replies inp' = ready_replies inp" for inp'
    using not_all that by (simp add: PlayTournament_def start case_prod_beta)
  have empty: "matches (snd ?checked) = []"
    by (simp add: fold_start_check_matches TournamentResults_init_def)
  have unplayed: "PlayTournament_played g s executables inp num_matches r = []"
    using not_all by (simp add: PlayTournament_played_def start case_prod_beta)
  have counts: "corrupted_matches (snd ?checked) ! pl =
      (if response (ready_replies inp pl) = kReadyMessage then 0 else num_matches)"
    if "pl < ?n" for pl
  proof -
    have "pl < length (corrupted_matches ?init)"
      using that by (simp add: TournamentResults_init_def)
    from fold_start_check_corrupted [OF this, of ok num_matches "[0..<?n]" True]
    show ?thesis using that by (simp add: ok TournamentResults_init_def)
  qed
  from run [of inp] run [of "inp\<lparr>match_inputs := []\<rparr>"] empty unplayed counts
  show ?thesis by simp
qed

lemma ready_failure_returns_scenario3:
  "\<exists>res r'. PlayTournament duel_game half_settings [''bot0'', ''bot1''] scenario3 5 Referee_init
               = Inr (res, r')
           \<and> matches res = [] \<and> corrupted_matches res = [0, 5]"
proof -
  have players: "NumPlayers duel_game = int (length [''bot0'', ''bot1''])"
    by (simp add: duel_game_def)
  have closes: "\<forall>pl < length [''bot0'', ''bot1'']. cancel_returns (ready_replies scenario3 pl)"
    by (simp add: scenario3_def says_def)
  have failed: "\<exists>pl < length [''bot0'', ''bot1''].
      response (ready_replies scenario3 pl) \<noteq> kReadyMessage"
    by (rule exI [of _ 1]) (simp add: scenario3_def says_def kReadyMessage_def)
  from ready_failure_returns [OF players closes failed, of half_settings 5 Referee_init]
  obtain res r' where run:
    "PlayTournament duel_game half_settings [''bot0'', ''bot1''] scenario3 5 Referee_init
       = Inr (res, r')"
    and none: "matches res = []"
    by blast
  from run have "corrupted_matches res = [0, 5]"
    by (auto simp: referee_defs concrete_defs scenario3_def)
  with run none show ?thesis by blast
qed

text \<open>
  When the read cycle of some bot's handshake does not close, \<open>PlayTournament\<close> waits for it
  in \<open>StartPlayers\<close>, whatever the other bots have answered.
\<close>

lemma handshake_waits:
  assumes players: "NumPlayers g = int (length executables)"
    and stuck: "\<exists>pl < length executables. \<not> cancel_returns (ready_replies inp pl)"
  shows "PlayTournament g s executables inp num_matches r = Inl NeverReturns"
  using players CheckResponses_waits [OF stuck]
  by (simp add: PlayTournament_def StartPlayers_def)

text \<open>
  While every \<^verbatim>\<open>read\<close> returns -1, \<^verbatim>\<open>getline_async\<close> stays in its loop, however many calls it
  makes, and the reader task never reaches the test of the time limit.
\<close>

lemma getline_loop_silent: "getline_loop (replicate n ReadError) (line_out, b) = None"
  by (induction n) simp_all

lemma read_loop_silent: "read_loop ps (replicate n ReadError) c = None"
  by (cases ps) (simp_all add: getline_async_def getline_loop_silent)

text \<open>
  C7, on two bots of which Bot#0 answers \<open>banana\<close> to the handshake and Bot#1 writes nothing
  and keeps its stdout open. Whatever the number of calls of \<^verbatim>\<open>read\<close> on the descriptor of
  Bot#1 and of polls of its reader task, and whatever the state of the channel, the read
  cycle does not close: the reader holds \<^verbatim>\<open>mx_read\<close>, \<^verbatim>\<open>CheckResponse\<close> waits for it in
  \<^verbatim>\<open>CancelReadBlocking()\<close>, and \<open>PlayTournament\<close> neither sets \<open>corrupted_matches\<close> nor
  returns.
\<close>

theorem silent_bot_handshake:
  "read_cycle ps (replicate n ReadError) c = None
   \<and> PlayTournament duel_game half_settings [''bot0'', ''bot1''] (silent_handshake ps n c) 5
       Referee_init = Inl NeverReturns"
proof -
  have silent: "read_cycle ps (replicate n ReadError) c = None"
    by (simp add: read_cycle_def read_loop_silent)
  have players: "NumPlayers duel_game = int (length [''bot0'', ''bot1''])"
    by (simp add: duel_game_def)
  have stuck: "\<exists>pl < length [''bot0'', ''bot1''].
      \<not> cancel_returns (ready_replies (silent_handshake ps n c) pl)"
    by (rule exI [of _ 1]) (simp add: silent_handshake_def silent_reply_def silent)
  from silent handshake_waits [OF players stuck] show ?thesis
    by simp
qed

subsection \<open>At most one disqualification\<close>

lemma fold_update_returns_disqualified:
  "disqualified (fold (update_returns m xs) pls res) = disqualified res"
  by (induction pls arbitrary: res) (simp_all add: update_returns_def Let_def)

lemma update_statistics_disqualified:
  "disqualified (update_statistics g n m st res) = disqualified res"
  by (simp add: update_statistics_def fold_update_returns_disqualified)

lemma list_update_True_unique:
  assumes "True \<notin> set d" and "p < length d" and "(d[pl := True]) ! p"
  shows "p = pl"
proof (rule ccontr)
  assume "p \<noteq> pl"
  with assms(3) have "d ! p" by simp
  with assms(2) have "True \<in> set d" using nth_mem [of p d] by simp
  with assms(1) show False by simp
qed

lemma tournament_loop_update:
  assumes "tournament_loop g s executables thr num_matches match (inp # inps) (r, res)
             = Inr (res', r')"
    and "int match < num_matches"
    and "PlayMatch g s (length executables) inp (ResetErrorTracking r) = Inr (state, r1)"
  obtains returned r2 res2 where
    "disqualification_update s executables thr (restart_replies inp) [0..<length executables]
       (r1, update_statistics g (length executables) match state res) = Inr (returned, r2, res2)"
proof (cases "disqualification_update s executables thr (restart_replies inp)
                [0..<length executables]
                (r1, update_statistics g (length executables) match state res)")
  case (Inl x)
  with assms show ?thesis by simp
next
  case (Inr y)
  with that show ?thesis by (cases y) auto
qed

lemma disqualification_update_disqualified:
  assumes "True \<notin> set (disqualified res)"
    and "disqualification_update s executables thr chns pls (r, res) = Inr (returned, r', res')"
  shows "(\<not> returned \<longrightarrow> True \<notin> set (disqualified res'))
       \<and> (\<forall>p q. p < length (disqualified res') \<and> q < length (disqualified res')
              \<and> disqualified res' ! p \<and> disqualified res' ! q \<longrightarrow> p = q)"
  using assms
proof (induction pls arbitrary: r res)
  case Nil
  then show ?case by (auto simp: in_set_conv_nth)
next
  case (Cons pl pls)
  show ?case
  proof (cases "corrupted_match_due s r pl")
    case False
    with Cons.prems(2)
    have "disqualification_update s executables thr chns pls (r, res) = Inr (returned, r', res')"
      by simp
    from Cons.IH [OF Cons.prems(1) this] show ?thesis .
  next
    case True
    let ?res1 = "res\<lparr>corrupted_matches := (corrupted_matches res)[pl := corrupted_matches res ! pl + 1]\<rparr>"
    show ?thesis
    proof (cases "corrupted_matches ?res1 ! pl > thr")
      case over: True
      with True Cons.prems(2)
      have res': "res' = ?res1\<lparr>disqualified := (disqualified ?res1)[pl := True]\<rparr>" and "returned"
        by (simp_all add: Let_def)
      have "p = pl" if "p < length (disqualified res')" "disqualified res' ! p" for p
        using list_update_True_unique [of "disqualified res" p pl] Cons.prems(1) that
        by (simp add: res')
      with \<open>returned\<close> show ?thesis by blast
    next
      case under: False
      let ?res2 = "?res1\<lparr>restarts := (restarts ?res1)[pl := restarts ?res1 ! pl + 1]\<rparr>"
      from True under Cons.prems(2) obtain r2 where
        step: "disqualification_update s executables thr chns pls (r2, ?res2)
                 = Inr (returned, r', res')"
        by (auto simp: Let_def split: sum.splits)
      have "True \<notin> set (disqualified ?res2)"
        using Cons.prems(1) by simp
      from Cons.IH [OF this step] show ?thesis .
    qed
  qed
qed

lemma tournament_loop_disqualified:
  assumes "True \<notin> set (disqualified res)"
    and "tournament_loop g s executables thr num_matches match inps (r, res) = Inr (res', r')"
  shows "\<forall>p q. p < length (disqualified res') \<and> q < length (disqualified res')
              \<and> disqualified res' ! p \<and> disqualified res' ! q \<longrightarrow> p = q"
  using assms
proof (induction inps arbitrary: match r res)
  case Nil
  then show ?case by (auto simp: in_set_conv_nth split: if_splits)
next
  case (Cons inp inps)
  show ?case
  proof (cases "int match < num_matches")
    case False
    with Cons.prems show ?thesis by (auto simp: in_set_conv_nth)
  next
    case True
    with Cons.prems(2) obtain state r1 where
      played: "PlayMatch g s (length executables) inp (ResetErrorTracking r) = Inr (state, r1)"
      by (auto split: sum.splits)
    let ?res1 = "update_statistics g (length executables) match state res"
    obtain returned r2 res2 where
      upd: "disqualification_update s executables thr (restart_replies inp)
              [0..<length executables] (r1, ?res1) = Inr (returned, r2, res2)"
      by (rule tournament_loop_update [OF Cons.prems(2) True played])
    have clean: "True \<notin> set (disqualified ?res1)"
      using Cons.prems(1) by (simp add: update_statistics_disqualified)
    note inv = disqualification_update_disqualified [OF clean upd]
    show ?thesis
    proof (cases returned)
      case True
      with \<open>int match < num_matches\<close> Cons.prems(2) played upd have "res' = res2"
        by simp
      with inv show ?thesis by blast
    next
      case False
      let ?res3 = "res2\<lparr>matches := matches res2 @ [\<lparr>terminal = state, errors = bot_errors r2\<rparr>]\<rparr>"
      from False \<open>int match < num_matches\<close> Cons.prems(2) played upd
      have next_loop: "tournament_loop g s executables thr num_matches (Suc match) inps (r2, ?res3)
               = Inr (res', r')"
        by simp
      have "True \<notin> set (disqualified ?res3)"
        using inv False by simp
      from Cons.IH [OF this next_loop] show ?thesis .
    qed
  qed
qed

text \<open>
  C10. In any run of \<open>PlayTournament\<close> that returns, at most one bot is marked disqualified:
  two indices whose flags are both set are the same index. The check goes through the bots
  in increasing order and returns at the first one over the threshold, so a bot with a
  higher index that corrupted the same match is not marked.
\<close>

theorem PlayTournament_one_disqualified:
  assumes "PlayTournament g s executables inp num_matches r = Inr (res, r')"
  shows "\<forall>p q. p < length (disqualified res) \<and> q < length (disqualified res)
              \<and> disqualified res ! p \<and> disqualified res ! q \<longrightarrow> p = q"
proof -
  from assms obtain start_ok r1 where
    start: "StartPlayers g executables (ready_replies inp) r = Inr (start_ok, r1)"
    by (auto simp: PlayTournament_def split: sum.splits)
  let ?n = "length executables"
  let ?checked = "fold (start_check start_ok num_matches) [0..<?n]
                    (True, TournamentResults_init ?n :: 'a TournamentResults)"
  have clean: "True \<notin> set (disqualified (snd ?checked))"
    by (simp add: fold_start_check_disqualified TournamentResults_init_def)
  show ?thesis
  proof (cases "fst ?checked")
    case False
    with assms start have "res = snd ?checked"
      by (simp add: PlayTournament_def case_prod_beta)
    with clean show ?thesis by (auto simp: in_set_conv_nth)
  next
    case True
    with assms start
    have "tournament_loop g s executables
            (double_to_int (real_of_int num_matches * disqualification_rate s))
            num_matches 0 (match_inputs inp) (r1, snd ?checked) = Inr (res, r')"
      by (simp add: PlayTournament_def case_prod_beta)
    from tournament_loop_disqualified [OF clean this] show ?thesis .
  qed
qed


theorem PlayTournament_one_disqualified_witness:
  "\<exists>res r'. PlayTournament duel_game half_settings [''bot0'', ''bot1''] one_bad_match 1 Referee_init
               = Inr (res, r')
           \<and> disqualified res ! 0 \<and> \<not> disqualified res ! 1
           \<and> protocol_error (bot_errors r' ! 0) = 1 \<and> protocol_error (bot_errors r' ! 1) = 1"
proof -
  have "\<exists>res r'. PlayTournament duel_game half_settings [''bot0'', ''bot1''] one_bad_match 1 Referee_init
               = Inr (res, r')
           \<and> disqualified res ! 0 \<and> length (disqualified res) = 2
           \<and> protocol_error (bot_errors r' ! 0) = 1 \<and> protocol_error (bot_errors r' ! 1) = 1"
    by (simp add: referee_defs concrete_defs one_bad_match_def)
  then obtain res r' where
    run: "PlayTournament duel_game half_settings [''bot0'', ''bot1''] one_bad_match 1 Referee_init
            = Inr (res, r')"
    and first: "disqualified res ! 0" and len: "length (disqualified res) = 2"
    and errs: "protocol_error (bot_errors r' ! 0) = 1" "protocol_error (bot_errors r' ! 1) = 1"
    by blast
  from PlayTournament_one_disqualified [OF run]
  have "0 < length (disqualified res) \<and> 1 < length (disqualified res)
          \<and> disqualified res ! 0 \<and> disqualified res ! 1 \<longrightarrow> (0 :: nat) = 1"
    by blast
  with first len have "\<not> disqualified res ! 1"
    by simp
  with run first errs show ?thesis by blast
qed

subsection \<open>The running mean and variance\<close>

lemma update_returns_lengths:
  "length (returns_mean (update_returns m xs q res)) = length (returns_mean res)"
  "length (returns_agg (update_returns m xs q res)) = length (returns_agg res)"
  by (simp_all add: update_returns_def Let_def)

lemma update_returns_other:
  "q \<noteq> pl \<Longrightarrow> returns_mean (update_returns m xs q res) ! pl = returns_mean res ! pl"
  "q \<noteq> pl \<Longrightarrow> returns_agg (update_returns m xs q res) ! pl = returns_agg res ! pl"
  by (simp_all add: update_returns_def Let_def)

lemma update_returns_same:
  assumes "pl < length (returns_mean res)" "pl < length (returns_agg res)"
  shows "(returns_mean (update_returns m xs pl res) ! pl, returns_agg (update_returns m xs pl res) ! pl)
         = welford m (xs ! pl) (returns_mean res ! pl, returns_agg res ! pl)"
  using assms by (simp add: update_returns_def Let_def welford_def)

lemma fold_update_returns_lengths:
  "length (returns_mean (fold (update_returns m xs) pls res)) = length (returns_mean res)"
  "length (returns_agg (fold (update_returns m xs) pls res)) = length (returns_agg res)"
  by (induction pls arbitrary: res) (simp_all add: update_returns_lengths)

lemma fold_update_returns_notin:
  "pl \<notin> set pls \<Longrightarrow> returns_mean (fold (update_returns m xs) pls res) ! pl = returns_mean res ! pl"
  "pl \<notin> set pls \<Longrightarrow> returns_agg (fold (update_returns m xs) pls res) ! pl = returns_agg res ! pl"
  by (induction pls arbitrary: res) (simp_all add: update_returns_other)

lemma fold_update_returns_in:
  assumes "distinct pls" "pl \<in> set pls"
    "pl < length (returns_mean res)" "pl < length (returns_agg res)"
  shows "(returns_mean (fold (update_returns m xs) pls res) ! pl,
          returns_agg (fold (update_returns m xs) pls res) ! pl)
         = welford m (xs ! pl) (returns_mean res ! pl, returns_agg res ! pl)"
  using assms
proof (induction pls arbitrary: res)
  case Nil
  then show ?case by simp
next
  case (Cons q pls)
  show ?case
  proof (cases "q = pl")
    case True
    with Cons.prems have "pl \<notin> set pls" by simp
    then show ?thesis
      using True Cons.prems update_returns_same [of pl res m xs]
      by (simp add: fold_update_returns_notin)
  next
    case False
    with Cons.prems have "pl \<in> set pls" "distinct pls" by simp_all
    from Cons.IH [OF this(2) this(1), of "update_returns m xs q res"] Cons.prems False
    show ?thesis
      by (simp add: update_returns_lengths update_returns_other)
  qed
qed

lemma update_statistics_welford:
  assumes "pl < n" "length (returns_mean res) = n" "length (returns_agg res) = n"
  shows "(returns_mean (update_statistics g n m st res) ! pl,
          returns_agg (update_statistics g n m st res) ! pl)
         = welford m (Returns g st ! pl) (returns_mean res ! pl, returns_agg res ! pl)"
  using assms fold_update_returns_in [of "[0..<n]" pl
      "res\<lparr>history_len_mean := history_len_mean res
               + (real (FullHistory_size g st) - history_len_mean res) / (real m + 1)\<rparr>" m "Returns g st"]
  by (simp add: update_statistics_def)

lemma update_statistics_lengths:
  "length (returns_mean (update_statistics g n m st res)) = length (returns_mean res)"
  "length (returns_agg (update_statistics g n m st res)) = length (returns_agg res)"
  by (simp_all add: update_statistics_def fold_update_returns_lengths)


lemma stat_inv_Nil: "stat_inv [] (0, 0)"
  by (simp add: stat_inv_def)

lemma stat_inv_step:
  assumes "stat_inv xs (m, a)"
  shows "stat_inv (xs @ [x]) (welford (length xs) x (m, a))"
proof -
  define K where "K = real (length xs)"
  define e where "e = (x - m) / (K + 1)"
  have "0 \<le> K" by (simp add: K_def)
  then have K1: "K + 1 \<noteq> 0" by linarith
  from assms have S: "sum_list xs = m * K" and A: "a = (\<Sum>x\<leftarrow>xs. x\<^sup>2) - K * m\<^sup>2"
    by (simp_all add: stat_inv_def K_def)
  have x: "x = m + e * (K + 1)"
    using K1 by (simp add: e_def)
  have step: "welford (length xs) x (m, a) = (m + e, a + (x - m) * (x - (m + e)))"
    by (simp add: welford_def e_def K_def)
  have mean': "(m + e) * (K + 1) = sum_list xs + x"
    unfolding S x by (simp add: algebra_simps)
  have agg': "a + (x - m) * (x - (m + e)) = (\<Sum>x\<leftarrow>xs. x\<^sup>2) + x\<^sup>2 - (K + 1) * (m + e)\<^sup>2"
    unfolding A x by (simp add: algebra_simps power2_eq_square)
  have len: "real (length (xs @ [x])) = K + 1"
    by (simp add: K_def)
  show ?thesis
    unfolding step stat_inv_def len using mean' agg' by simp
qed

lemma sum_list_deviation:
  "(\<Sum>x\<leftarrow>xs. (x - c)\<^sup>2) = (\<Sum>x\<leftarrow>xs. x\<^sup>2) - 2 * c * sum_list xs + real (length xs) * c\<^sup>2"
  by (induction xs) (simp_all add: algebra_simps power2_eq_square)

lemma stat_inv_mean_variance:
  assumes "stat_inv xs (m, a)" and "xs \<noteq> []"
  shows "m = mean xs" and "a / real (length xs) = population_variance xs"
proof -
  define K where "K = real (length xs)"
  from assms(2) have K: "0 < K" by (simp add: K_def)
  from assms(1) have S: "sum_list xs = m * K" and A: "a = (\<Sum>x\<leftarrow>xs. x\<^sup>2) - K * m\<^sup>2"
    by (simp_all add: stat_inv_def K_def)
  from S K show m: "m = mean xs"
    by (simp add: mean_def K_def [symmetric])
  have "(\<Sum>x\<leftarrow>xs. (x - m)\<^sup>2) = (\<Sum>x\<leftarrow>xs. x\<^sup>2) - 2 * m * sum_list xs + K * m\<^sup>2"
    by (simp add: sum_list_deviation K_def)
  also have "\<dots> = a"
    unfolding A S by (simp add: algebra_simps power2_eq_square)
  finally show "a / real (length xs) = population_variance xs"
    by (simp add: population_variance_def m [symmetric])
qed


lemma disqualification_update_keeps:
  assumes "disqualification_update s executables thr chns pls (r, res) = Inr (returned, r', res')"
  shows "returns_mean res' = returns_mean res" "returns_agg res' = returns_agg res"
    "matches res' = matches res" "length (disqualified res') = length (disqualified res)"
  using assms
  by (induction pls arbitrary: r res) (auto simp: Let_def split: if_splits sum.splits)

lemma tournament_loop_stat_inv:
  assumes "pl < length executables"
    and "length (returns_mean res) = length executables"
    and "length (returns_agg res) = length executables"
    and "stat_inv (map (\<lambda>st. Returns g st ! pl) sts) (returns_mean res ! pl, returns_agg res ! pl)"
    and "length sts = match"
    and "tournament_loop g s executables thr num_matches match inps (r, res) = Inr (res', r')"
  shows "stat_inv (map (\<lambda>st. Returns g st ! pl)
                     (sts @ played_states g s executables thr num_matches match inps (r, res)))
           (returns_mean res' ! pl, returns_agg res' ! pl)"
  using assms(2-)
proof (induction inps arbitrary: match r res sts)
  case Nil
  then show ?case by (auto split: if_splits)
next
  case (Cons inp inps)
  let ?n = "length executables"
  let ?f = "\<lambda>st. Returns g st ! pl"
  show ?case
  proof (cases "int match < num_matches")
    case False
    with Cons.prems show ?thesis by auto
  next
    case True
    with Cons.prems(5) obtain state r1 where
      played: "PlayMatch g s ?n inp (ResetErrorTracking r) = Inr (state, r1)"
      by (auto split: sum.splits)
    let ?res1 = "update_statistics g ?n match state res"
    obtain returned r2 res2 where
      upd: "disqualification_update s executables thr (restart_replies inp) [0..<?n] (r1, ?res1)
              = Inr (returned, r2, res2)"
      by (rule tournament_loop_update [OF Cons.prems(5) True played])
    note keeps = disqualification_update_keeps [OF upd]
    have "(returns_mean ?res1 ! pl, returns_agg ?res1 ! pl)
            = welford match (?f state) (returns_mean res ! pl, returns_agg res ! pl)"
      using assms(1) Cons.prems(1,2) by (rule update_statistics_welford)
    moreover have "stat_inv (map ?f sts @ [?f state])
        (welford (length (map ?f sts)) (?f state) (returns_mean res ! pl, returns_agg res ! pl))"
      using Cons.prems(3) by (rule stat_inv_step)
    ultimately have inv2: "stat_inv (map ?f (sts @ [state])) (returns_mean res2 ! pl, returns_agg res2 ! pl)"
      using Cons.prems(4) by (simp add: keeps)
    show ?thesis
    proof (cases returned)
      case True
      with \<open>int match < num_matches\<close> Cons.prems(5) played upd have "res' = res2"
        by simp
      with inv2 True \<open>int match < num_matches\<close> played upd show ?thesis
        by simp
    next
      case False
      let ?res3 = "res2\<lparr>matches := matches res2 @ [\<lparr>terminal = state, errors = bot_errors r2\<rparr>]\<rparr>"
      from False \<open>int match < num_matches\<close> Cons.prems(5) played upd
      have next_loop: "tournament_loop g s executables thr num_matches (Suc match) inps (r2, ?res3)
               = Inr (res', r')"
        by simp
      have "stat_inv (map ?f ((sts @ [state]) @
                played_states g s executables thr num_matches (Suc match) inps (r2, ?res3)))
              (returns_mean res' ! pl, returns_agg res' ! pl)"
      proof (rule Cons.IH [OF _ _ _ _ next_loop])
        show "length (returns_mean ?res3) = ?n" "length (returns_agg ?res3) = ?n"
          using Cons.prems(1,2) by (simp_all add: keeps update_statistics_lengths)
        show "stat_inv (map ?f (sts @ [state])) (returns_mean ?res3 ! pl, returns_agg ?res3 ! pl)"
          using inv2 by simp
        show "length (sts @ [state]) = Suc match"
          using Cons.prems(4) by simp
      qed
      with False \<open>int match < num_matches\<close> played upd show ?thesis
        by simp
    qed
  qed
qed

lemma fold_start_check_returns:
  "returns_mean (snd (fold (start_check ok nm) pls (a, res))) = returns_mean res"
  "returns_agg (snd (fold (start_check ok nm) pls (a, res))) = returns_agg res"
  by (induction pls arbitrary: a res) (auto simp: start_check_def)

text \<open>
  C8. For every bot \<open>pl\<close>, when \<open>PlayTournament\<close> returns after K completed matches (K at least
  1) whose terminal states gave the returns \<open>r\<^sub>1 .. r\<^sub>K\<close> to that bot, \<open>returns_mean[pl]\<close> is
  the arithmetic mean of \<open>r\<^sub>1 .. r\<^sub>K\<close> and \<open>returns_agg[pl] / K\<close> is their population variance,
  in exact arithmetic.
\<close>

theorem PlayTournament_welford:
  assumes run: "PlayTournament g s executables inp num_matches r = Inr (res, r')"
    and pl: "pl < length executables"
    and some: "PlayTournament_played g s executables inp num_matches r \<noteq> []"
  shows "returns_mean res ! pl =
           mean (map (\<lambda>st. Returns g st ! pl) (PlayTournament_played g s executables inp num_matches r))
       \<and> returns_agg res ! pl / real (length (PlayTournament_played g s executables inp num_matches r)) =
           population_variance
             (map (\<lambda>st. Returns g st ! pl) (PlayTournament_played g s executables inp num_matches r))"
proof -
  let ?n = "length executables"
  let ?f = "\<lambda>st. Returns g st ! pl"
  from run obtain start_ok r1 where
    start: "StartPlayers g executables (ready_replies inp) r = Inr (start_ok, r1)"
    by (auto simp: PlayTournament_def split: sum.splits)
  let ?checked = "fold (start_check start_ok num_matches) [0..<?n]
                    (True, TournamentResults_init ?n :: 'a TournamentResults)"
  let ?thr = "double_to_int (real_of_int num_matches * disqualification_rate s)"
  let ?played = "PlayTournament_played g s executables inp num_matches r"
  from some start have all_ok: "fst ?checked"
    by (auto simp: PlayTournament_played_def case_prod_beta split: if_splits)
  with start have played: "?played =
      played_states g s executables ?thr num_matches 0 (match_inputs inp) (r1, snd ?checked)"
    by (simp add: PlayTournament_played_def case_prod_beta)
  from all_ok run start have loop:
    "tournament_loop g s executables ?thr num_matches 0 (match_inputs inp) (r1, snd ?checked)
       = Inr (res, r')"
    by (simp add: PlayTournament_def case_prod_beta)
  have "stat_inv (map ?f ([] @ played_states g s executables ?thr num_matches 0 (match_inputs inp)
                    (r1, snd ?checked)))
          (returns_mean res ! pl, returns_agg res ! pl)"
  proof (rule tournament_loop_stat_inv [OF pl _ _ _ _ loop])
    show "length (returns_mean (snd ?checked)) = ?n" "length (returns_agg (snd ?checked)) = ?n"
      by (simp_all add: fold_start_check_returns TournamentResults_init_def)
    show "stat_inv (map ?f []) (returns_mean (snd ?checked) ! pl, returns_agg (snd ?checked) ! pl)"
      using pl by (simp add: fold_start_check_returns TournamentResults_init_def stat_inv_Nil)
    show "length ([] :: 'a list) = 0" by simp
  qed
  then have inv: "stat_inv (map ?f ?played) (returns_mean res ! pl, returns_agg res ! pl)"
    by (simp add: played)
  from some have "map ?f ?played \<noteq> []" by simp
  from stat_inv_mean_variance [OF inv this] show ?thesis by simp
qed


theorem PlayTournament_welford_witness:
  "\<exists>res r'. PlayTournament solo_game half_settings [''bot0''] zero_then_one 2 Referee_init
               = Inr (res, r')
           \<and> map (\<lambda>st. Returns solo_game st ! 0)
                (PlayTournament_played solo_game half_settings [''bot0''] zero_then_one 2 Referee_init)
               = [0, 1]
           \<and> returns_mean res ! 0 = 1 / 2 \<and> returns_agg res ! 0 / 2 = 1 / 4"
proof -
  have "\<exists>res r'. PlayTournament solo_game half_settings [''bot0''] zero_then_one 2 Referee_init
               = Inr (res, r')"
    by (simp add: referee_defs concrete_defs zero_then_one_def)
  then obtain res r' where
    run: "PlayTournament solo_game half_settings [''bot0''] zero_then_one 2 Referee_init
            = Inr (res, r')"
    by blast
  have played: "PlayTournament_played solo_game half_settings [''bot0''] zero_then_one 2 Referee_init
                  = [[0], [1]]"
    by (simp add: PlayTournament_played_def referee_defs concrete_defs zero_then_one_def)
  have pl: "0 < length [''bot0'']" by simp
  have some: "PlayTournament_played solo_game half_settings [''bot0''] zero_then_one 2 Referee_init
                \<noteq> []"
    by (simp add: played)
  have returns: "map (\<lambda>st. Returns solo_game st ! 0) [[0], [1]] = [0, 1]"
    by (simp add: solo_game_def)
  have rs: "map (\<lambda>st. Returns solo_game st ! 0)
      (PlayTournament_played solo_game half_settings [''bot0''] zero_then_one 2 Referee_init) = [0, 1]"
    unfolding played by (rule returns)
  have "mean [0, 1] = 1 / 2" "population_variance [0, 1] = 1 / 4"
    by (simp_all add: mean_def population_variance_def power2_eq_square)
  with PlayTournament_welford [OF run pl some, unfolded rs] run rs show ?thesis
    by (simp add: played)
qed

subsection \<open>The actions applied in a turn are legal\<close>

lemma act_response_legal:
  assumes "act_response s invalid legal chn e = (e', a)"
  shows "a = invalid \<or> a \<in> set legal"
  using assms
  by (auto simp: act_response_def Let_def split: if_splits prod.splits)

lemma pick_action_legal:
  assumes "pick_action invalid legal idx a = Inr a'" and "a = invalid \<or> a \<in> set legal"
  shows "a' \<in> set legal"
  using assms by (auto simp: pick_action_def split: if_splits)

lemma parse_loop_legal:
  assumes "parse_loop g s inp state pls (errs, bot_actions) = Inr (errs', bot_actions')"
    and "pl < length bot_actions"
    and "IsPlayerActing g state pl"
    and "pl \<in> set pls \<or> bot_actions ! pl \<in> set (LegalActions g state pl)"
  shows "bot_actions' ! pl \<in> set (LegalActions g state pl)"
  using assms
proof (induction pls arbitrary: errs bot_actions)
  case Nil
  then show ?case by simp
next
  case (Cons q pls)
  show ?case
  proof (cases "IsPlayerActing g state q")
    case False
    with Cons.prems(3) have "q \<noteq> pl" by auto
    with Cons.prems(4) have rest: "pl \<in> set pls \<or> bot_actions ! pl \<in> set (LegalActions g state pl)"
      by auto
    from False Cons.prems(1)
    have "parse_loop g s inp state pls (errs, bot_actions) = Inr (errs', bot_actions')"
      by simp
    from Cons.IH [OF this Cons.prems(2,3) rest] show ?thesis .
  next
    case True
    let ?legal = "LegalActions g state q"
    obtain e a where act: "act_response s (kInvalidAction g) ?legal (replies inp q) (errs ! q) = (e, a)"
      by (cases "act_response s (kInvalidAction g) ?legal (replies inp q) (errs ! q)")
    with True Cons.prems(1) obtain a' where
      pick: "pick_action (kInvalidAction g) ?legal (random_idx inp q) a = Inr a'"
      and rest: "parse_loop g s inp state pls (errs[q := e], bot_actions[q := a'])
                   = Inr (errs', bot_actions')"
      by (auto simp: Let_def split: sum.splits)
    from pick_action_legal [OF pick act_response_legal [OF act]] have legal: "a' \<in> set ?legal" .
    have "pl \<in> set pls \<or> bot_actions[q := a'] ! pl \<in> set (LegalActions g state pl)"
    proof (cases "q = pl")
      case True
      with legal Cons.prems(2) show ?thesis by simp
    next
      case False
      with Cons.prems(4) show ?thesis by auto
    qed
    moreover have "pl < length (bot_actions[q := a'])"
      using Cons.prems(2) by simp
    ultimately show ?thesis
      using Cons.IH [OF rest _ Cons.prems(3)] by blast
  qed
qed

lemma parse_loop_length:
  "parse_loop g s inp state pls (errs, bot_actions) = Inr (errs', bot_actions')
   \<Longrightarrow> length bot_actions' = length bot_actions"
proof (induction pls arbitrary: errs bot_actions)
  case Nil
  then show ?case by simp
next
  case (Cons q pls)
  then show ?case
    by (fastforce simp: Let_def split: if_splits sum.splits prod.splits)
qed

text \<open>
  C4. For any bot and any turn of a match, the action that the referee applies for a bot
  that is acting is one of that bot's legal actions in the state of the turn, whether it is
  the bot's parsed response or a random substitution: the new state is the result of
  applying the sampled outcome at a chance node, the vector \<open>bot_actions\<close> at a simultaneous
  node and \<open>bot_actions[CurrentPlayer]\<close> otherwise, and every acting bot's entry of
  \<open>bot_actions\<close> is legal.
\<close>

theorem play_turn_applies_legal:
  assumes "play_turn g s num_bots inp (state, errs) = Inr (state', errs')"
  shows "\<exists>bot_actions. length bot_actions = num_bots
     \<and> (\<forall>pl < num_bots. IsPlayerActing g state pl \<longrightarrow>
            bot_actions ! pl \<in> set (LegalActions g state pl))
     \<and> (if IsChanceNode g state
          then state' = ApplyAction g state
                 (fst (SampleAction g (ChanceOutcomes g state) (chance_draw inp)))
        else if IsSimultaneousNode g state then state' = ApplyActions g state bot_actions
        else 0 \<le> CurrentPlayer g state \<and> nat (CurrentPlayer g state) < num_bots
           \<and> state' = ApplyAction g state (bot_actions ! nat (CurrentPlayer g state)))"
proof -
  from assms obtain bot_actions where
    parse: "parse_loop g s inp state [0..<num_bots]
              (ponder_loop g num_bots inp state errs, replicate num_bots (kInvalidAction g))
            = Inr (errs', bot_actions)"
    and applied: "apply_step g inp state bot_actions = Inr state'"
    by (auto simp: play_turn_def Let_def split: sum.splits if_splits)
  have len: "length bot_actions = num_bots"
    using parse_loop_length [OF parse] by simp
  have legal: "bot_actions ! pl \<in> set (LegalActions g state pl)"
    if "pl < num_bots" "IsPlayerActing g state pl" for pl
    using parse_loop_legal [OF parse, of pl] that by simp
  from applied len have
    "if IsChanceNode g state
     then state' = ApplyAction g state (fst (SampleAction g (ChanceOutcomes g state) (chance_draw inp)))
     else if IsSimultaneousNode g state then state' = ApplyActions g state bot_actions
     else 0 \<le> CurrentPlayer g state \<and> nat (CurrentPlayer g state) < num_bots
        \<and> state' = ApplyAction g state (bot_actions ! nat (CurrentPlayer g state))"
    by (auto simp: apply_step_def Let_def split: if_splits)
  with len legal show ?thesis by blast
qed


theorem play_turn_applies_legal_witness:
  "\<exists>state' errs'. play_turn duel_game half_settings 2 mixed_turn ([], [BotErrors_init, BotErrors_init])
                    = Inr (state', errs')
     \<and> state' = [1, 0] \<and> illegal_actions (errs' ! 1) = 1
     \<and> state' ! 0 \<in> set (LegalActions duel_game [] 0)
     \<and> state' ! 1 \<in> set (LegalActions duel_game [] 1)"
proof -
  have "\<exists>state' errs'. play_turn duel_game half_settings 2 mixed_turn ([], [BotErrors_init, BotErrors_init])
                    = Inr (state', errs')
     \<and> state' = [1, 0] \<and> illegal_actions (errs' ! 1) = 1"
    by (simp add: referee_defs concrete_defs mixed_turn_def numeral_2_eq_2)
  then obtain state' errs' where
    run: "play_turn duel_game half_settings 2 mixed_turn ([], [BotErrors_init, BotErrors_init])
            = Inr (state', errs')"
    and result: "state' = [1, 0]" "illegal_actions (errs' ! 1) = 1"
    by blast
  from play_turn_applies_legal [OF run] obtain bot_actions where
    legal: "\<forall>pl < 2. IsPlayerActing duel_game [] pl \<longrightarrow>
              bot_actions ! pl \<in> set (LegalActions duel_game [] pl)"
    and applied: "state' = ApplyActions duel_game [] bot_actions"
    by (auto simp: duel_game_def)
  from applied have same: "bot_actions = state'"
    by (simp add: duel_game_def)
  from legal have "bot_actions ! 0 \<in> set (LegalActions duel_game [] 0)"
    "bot_actions ! 1 \<in> set (LegalActions duel_game [] 1)"
    by (simp_all add: duel_game_def)
  with run result same show ?thesis by blast
qed

subsection \<open>The classification of an acting bot's response\<close>

text \<open>
  The test \<^verbatim>\<open>*end != '\0'\<close> accepts the decimal integers and the empty text; on a response
  that is not empty, holds no NUL byte and denotes a number in the range of \<^verbatim>\<open>int\<close>, the
  branches of \<open>act_response\<close> are the classification of the specification, in its order.
\<close>

lemma signed_digits_Nil: "signed_digits [] = []"
  by (simp add: signed_digits_def)

lemma strtol_snd:
  "snd (strtol text) = [] \<longleftrightarrow> text = [] \<or> decimal_integer text"
proof (cases "takeWhile isdigit (signed_digits text) = []")
  case True
  have "\<not> decimal_integer text"
  proof
    assume "decimal_integer text"
    then have "signed_digits text \<noteq> []" and "\<forall>x \<in> set (signed_digits text). isdigit x"
      by (simp_all add: decimal_integer_def list_all_iff)
    then have "takeWhile isdigit (signed_digits text) \<noteq> []"
      by (cases "signed_digits text") simp_all
    with True show False by simp
  qed
  moreover from True have "snd (strtol text) = text"
    by (simp add: strtol_def Let_def)
  ultimately show ?thesis by simp
next
  case False
  then have u: "signed_digits text \<noteq> []" by auto
  then have "text \<noteq> []" using signed_digits_Nil by auto
  moreover from False have "snd (strtol text) = dropWhile isdigit (signed_digits text)"
    by (simp add: strtol_def Let_def)
  moreover have "dropWhile isdigit (signed_digits text) = [] \<longleftrightarrow> decimal_integer text"
    using u by (simp add: decimal_integer_def list_all_iff)
  ultimately show ?thesis by simp
qed

lemma strtol_fst:
  assumes "decimal_integer text"
  shows "fst (strtol text) = clamp_long (integer_value text)"
proof -
  from assms have some: "signed_digits text \<noteq> []" and all: "list_all isdigit (signed_digits text)"
    by (simp_all add: decimal_integer_def)
  then have whole: "takeWhile isdigit (signed_digits text) = signed_digits text"
    by (simp add: list_all_iff)
  show ?thesis
    unfolding strtol_def Let_def whole using some by (simp add: integer_value_def)
qed


lemma long_to_int_id:
  assumes "- (2 ^ 31) \<le> v" and "v < 2 ^ 31"
  shows "long_to_int v = v"
proof -
  from assms have "0 \<le> v + 2 ^ 31" and "v + 2 ^ 31 < 2 ^ 32"
    by simp_all
  then have "(v + 2 ^ 31) mod 2 ^ 32 = v + 2 ^ 31"
    by (rule mod_pos_pos_trivial)
  then show ?thesis by (simp add: long_to_int_def)
qed

lemma clamp_long_id:
  assumes "- (2 ^ 31) \<le> v" and "v < 2 ^ 31"
  shows "clamp_long v = (v :: int)"
  using assms by (simp add: clamp_long_def)

lemma act_response_classification:
  assumes "response chn \<noteq> []" and "CHR 0x00 \<notin> set (response chn)"
    and "- (2 ^ 31) \<le> integer_value (response chn)" and "integer_value (response chn) < 2 ^ 31"
  shows "act_response s invalid legal_actions chn e =
     (counted (classify legal_actions chn) e,
      if classify legal_actions chn = LegalAction \<and> total_errors e \<le> max_invalid_behaviors s
      then integer_value (response chn) else invalid)"
proof -
  from assms(2) have cstr: "c_str (response chn) = response chn"
    by (auto simp: c_str_def)
  have parses: "snd (strtol (response chn)) = [] \<longleftrightarrow> decimal_integer (response chn)"
    using assms(1) by (simp add: strtol_snd)
  have val: "long_to_int (fst (strtol (response chn))) = integer_value (response chn)"
    if "decimal_integer (response chn)"
    unfolding strtol_fst [OF that] clamp_long_id [OF assms(3,4)]
    by (rule long_to_int_id [OF assms(3,4)])
  obtain v rest where parsed: "strtol (response chn) = (v, rest)"
    by (cases "strtol (response chn)")
  show ?thesis
  proof (cases "is_time_out chn \<or> \<not> has_read chn")
    case True
    then show ?thesis
      by (auto simp: act_response_def classify_def)
  next
    case False
    show ?thesis
    proof (cases "decimal_integer (response chn)")
      case no: False
      with parses parsed have "rest \<noteq> []" by simp
      with False no parsed show ?thesis
        by (simp add: act_response_def classify_def cstr)
    next
      case yes: True
      with parses parsed val have "rest = []" "long_to_int v = integer_value (response chn)"
        by simp_all
      with False yes parsed show ?thesis
        by (simp add: act_response_def classify_def cstr)
    qed
  qed
qed

text \<open>
  C5, at two inputs where the code departs from it. First, an acting bot writes in time a
  line that holds one NUL byte. The response is not a decimal integer: by the
  classification it counts as a protocol error and a random action is substituted. For the
  code the C string is empty: \<^verbatim>\<open>strtol\<close> converts nothing, returns 0 and leaves \<^verbatim>\<open>end\<close> at the
  terminator, the test \<^verbatim>\<open>*end != '\0'\<close> passes, no counter moves and action 0 is played as
  the bot's own. Second, the bot answers 4294967296, an integer outside the legal set: the
  assignment to \<^verbatim>\<open>int action\<close> narrows it to 0, which is legal, and again no counter moves.
\<close>

theorem act_response_nul_line:
  "classify (LegalActions solo_game [] 0) nul_line = NotANumber
   \<and> act_response half_settings (kInvalidAction solo_game) (LegalActions solo_game [] 0)
         nul_line BotErrors_init = (BotErrors_init, 0)
   \<and> play_turn solo_game half_settings 1 nul_turn ([], [BotErrors_init])
         = Inr ([0], [BotErrors_init])
   \<and> classify (LegalActions solo_game [] 0) (says ''4294967296'') = IllegalAction
   \<and> act_response half_settings (kInvalidAction solo_game) (LegalActions solo_game [] 0)
         (says ''4294967296'') BotErrors_init = (BotErrors_init, 0)"
  by (simp add: classify_def decimal_integer_def integer_value_def referee_defs concrete_defs
      nul_line_def nul_turn_def)

subsection \<open>The response slot within a read cycle\<close>

lemma bytes_of_append: "bytes_of (xs @ ys) = bytes_of xs @ bytes_of ys"
  by (induction xs rule: bytes_of.induct) simp_all

lemma getline_loop_result:
  assumes "getline_loop fd (line_out, b) = Some (line_read, line_out', b', fd')"
  shows "if line_read
         then \<exists>pre. fd = pre @ ReadByte (CHR 0x0A) # fd' \<and> line_out' = b @ bytes_of pre \<and> b' = []
         else line_out' = line_out \<and> (\<exists>pre. fd = pre @ ReadZero # fd' \<and> b' = b @ bytes_of pre)"
  using assms
proof (induction fd "(line_out, b)" arbitrary: b rule: getline_loop.induct)
  case 1
  then show ?case by simp
next
  case (2 c fd b)
  show ?case
  proof (cases "c = CHR 0x0A")
    case True
    with "2.prems" show ?thesis by (auto intro: exI [of _ "[]"])
  next
    case False
    with "2.prems" have "getline_loop fd (line_out, b @ [c]) = Some (line_read, line_out', b', fd')"
      by simp
    from "2.hyps" [OF False this] show ?thesis
      by (auto split: if_splits intro: exI [of _ "ReadByte c # pre" for pre])
  qed
next
  case (3 fd b)
  then show ?case by (auto intro: exI [of _ "[]"])
next
  case (4 fd b)
  from "4.prems" have "getline_loop fd (line_out, b) = Some (line_read, line_out', b', fd')"
    by simp
  from "4.hyps" [OF this] show ?case
    by (auto split: if_splits intro: exI [of _ "ReadError # pre" for pre])
qed


lemma read_loop_stale:
  "read_loop ps fd (c\<lparr>response_slot := stale\<rparr>) = read_loop ps fd c"
  by (cases ps) (auto simp: getline_async_def Let_def split: option.splits)

lemma read_loop_response:
  assumes "read_loop ps fd c = Some (returned, c', fd')"
  shows "response_slot c' = []
       \<or> (\<exists>pre. fd = pre @ ReadByte (CHR 0x0A) # fd' \<and> response_slot c' = buf c @ bytes_of pre)"
  using assms
proof (induction ps arbitrary: fd c)
  case Nil
  then show ?case by simp
next
  case (Cons p ps)
  from Cons.prems obtain line_read line_out b fd1 where
    poll: "getline_loop fd ([], buf c) = Some (line_read, line_out, b, fd1)"
    by (auto simp: getline_async_def split: option.splits)
  note shape = getline_loop_result [OF poll]
  let ?c1 = "c\<lparr>response_slot := line_out, buf := b\<rparr>"
  let ?c2 = "?c1\<lparr>time_out := (time_elapsed p > time_limit ?c1)\<rparr>"
  show ?case
  proof (cases line_read)
    case True
    with Cons.prems poll have "c' = ?c1" "fd' = fd1"
      by (simp_all add: getline_async_def)
    with shape True show ?thesis by auto
  next
    case False
    with shape obtain pre1 where empty: "line_out = []"
      and pre1: "fd = pre1 @ ReadZero # fd1" "b = buf c @ bytes_of pre1"
      by auto
    show ?thesis
    proof (cases "time_out ?c2 \<or> cancel_seen p \<or> shutdown_seen p")
      case True
      with False Cons.prems poll have "response_slot c' = line_out"
        by (auto simp: getline_async_def Let_def split: if_splits)
      with empty show ?thesis by simp
    next
      case continue: False
      with False Cons.prems poll have "read_loop ps fd1 ?c2 = Some (returned, c', fd')"
        by (simp add: getline_async_def Let_def)
      from Cons.IH [OF this] show ?thesis
      proof
        assume "response_slot c' = []"
        then show ?thesis by simp
      next
        assume "\<exists>pre. fd1 = pre @ ReadByte (CHR 0x0A) # fd' \<and> response_slot c' = buf ?c2 @ bytes_of pre"
        then obtain pre2 where "fd1 = pre2 @ ReadByte (CHR 0x0A) # fd'"
          "response_slot c' = buf ?c2 @ bytes_of pre2"
          by blast
        with pre1 have "fd = (pre1 @ ReadZero # pre2) @ ReadByte (CHR 0x0A) # fd'
            \<and> response_slot c' = buf c @ bytes_of (pre1 @ ReadZero # pre2)"
          by (simp add: bytes_of_append)
        then show ?thesis by blast
      qed
    qed
  qed
qed

text \<open>
  C9. In a read cycle, from \<open>StartRead\<close> to the end of the reader's pass, the first poll
  clears the response slot. So after the cycle the slot is empty, unless the newline that
  completes a line was read during this cycle, and then the slot holds that line: the
  bytes buffered before the cycle followed by the bytes read in it. What the slot held
  before the cycle has no influence on the outcome: a line received in an earlier cycle is
  not reported by the check of a later one.
\<close>

theorem read_cycle_response:
  assumes "StartRead limit c0 = Inr c"
    and "read_cycle ps fd c = Some (returned, c', fd')"
  shows "(response_slot c' = []
          \<or> (\<exists>pre. fd = pre @ ReadByte (CHR 0x0A) # fd' \<and> response_slot c' = buf c0 @ bytes_of pre))
       \<and> (\<exists>c1. StartRead limit (c0\<lparr>response_slot := stale\<rparr>) = Inr c1
              \<and> read_cycle ps fd c1 = Some (returned, c', fd'))"
proof -
  from assms(1) have c: "c = c0\<lparr>time_limit := limit, time_out := False, cancel_read := False,
                                wait_for_message := False\<rparr>"
    and ok: "\<not> shutdown c0" "wait_for_message c0"
    by (auto simp: StartRead_def split: if_splits)
  from assms(2) obtain c2 where
    loop: "read_loop ps fd c = Some (returned, c2, fd')"
    and c': "c' = (if returned then c2 else c2\<lparr>wait_for_message := True\<rparr>)"
    by (auto simp: read_cycle_def split: option.splits)
  from read_loop_response [OF loop] c c'
  have first: "response_slot c' = []
      \<or> (\<exists>pre. fd = pre @ ReadByte (CHR 0x0A) # fd' \<and> response_slot c' = buf c0 @ bytes_of pre)"
    by auto
  let ?c1 = "c\<lparr>response_slot := stale\<rparr>"
  have "StartRead limit (c0\<lparr>response_slot := stale\<rparr>) = Inr ?c1"
    using ok by (simp add: StartRead_def c)
  moreover have "read_cycle ps fd ?c1 = Some (returned, c', fd')"
    using assms(2) by (simp add: read_cycle_def read_loop_stale)
  ultimately show ?thesis using first by blast
qed


theorem read_cycle_response_witness:
  "\<exists>c c'. StartRead 50 idle_channel = Inr c
     \<and> read_cycle [late_poll] [ReadZero] c = Some (False, c', [])
     \<and> response_slot idle_channel = ''ponder'' \<and> response_slot c' = [] \<and> time_out c'"
proof -
  have "\<exists>c c'. StartRead 50 idle_channel = Inr c
     \<and> read_cycle [late_poll] [ReadZero] c = Some (False, c', [])
     \<and> response_slot idle_channel = ''ponder'' \<and> time_out c'"
    by (simp add: StartRead_def read_cycle_def getline_async_def idle_channel_def late_poll_def)
  then obtain c c' where start: "StartRead 50 idle_channel = Inr c"
    and cycle: "read_cycle [late_poll] [ReadZero] c = Some (False, c', [])"
    and rest: "response_slot idle_channel = ''ponder''" "time_out c'"
    by blast
  from read_cycle_response [OF start cycle]
  have "response_slot c' = []
      \<or> (\<exists>pre. [ReadZero] = pre @ [ReadByte (CHR 0x0A)])"
    by blast
  moreover have "[ReadZero] \<noteq> pre @ [ReadByte (CHR 0x0A)]" for pre
    by (cases pre) simp_all
  ultimately have "response_slot c' = []" by blast
  with start cycle rest show ?thesis by blast
qed

subsection \<open>The matches recorded in the results\<close>

lemma fold_update_returns_matches:
  "matches (fold (update_returns m xs) pls res) = matches res"
  by (induction pls arbitrary: res) (simp_all add: update_returns_def Let_def)

lemma update_statistics_matches:
  "matches (update_statistics g n m st res) = matches res"
  by (simp add: update_statistics_def fold_update_returns_matches)

lemma disqualification_update_returned:
  assumes "disqualification_update s executables thr chns pls (r, res) = Inr (True, r', res')"
    and "\<forall>pl \<in> set pls. pl < length (disqualified res)"
  shows "True \<in> set (disqualified res')"
  using assms
proof (induction pls arbitrary: r res)
  case Nil
  then show ?case by simp
next
  case (Cons pl pls)
  show ?case
  proof (cases "corrupted_match_due s r pl")
    case False
    with Cons show ?thesis by simp
  next
    case True
    let ?res1 = "res\<lparr>corrupted_matches := (corrupted_matches res)[pl := corrupted_matches res ! pl + 1]\<rparr>"
    show ?thesis
    proof (cases "corrupted_matches ?res1 ! pl > thr")
      case over: True
      with True Cons.prems(1)
      have "res' = ?res1\<lparr>disqualified := (disqualified ?res1)[pl := True]\<rparr>"
        by (simp add: Let_def)
      moreover have "pl < length (disqualified res)"
        using Cons.prems(2) by simp
      ultimately show ?thesis
        by (simp add: set_update_memI)
    next
      case under: False
      let ?res2 = "?res1\<lparr>restarts := (restarts ?res1)[pl := restarts ?res1 ! pl + 1]\<rparr>"
      from True under Cons.prems(1) obtain r2 where
        step: "disqualification_update s executables thr chns pls (r2, ?res2)
                 = Inr (True, r', res')"
        by (auto simp: Let_def split: sum.splits)
      have "\<forall>pl \<in> set pls. pl < length (disqualified ?res2)"
        using Cons.prems(2) by simp
      from Cons.IH [OF step this] show ?thesis .
    qed
  qed
qed

lemma tournament_loop_nothing_played:
  assumes "tournament_loop g s executables thr num_matches match inps (r, res) = Inr (res', r')"
    and "played_states g s executables thr num_matches match inps (r, res) = []"
  shows "res' = res"
proof (cases inps)
  case Nil
  with assms(1) show ?thesis by (simp split: if_splits)
next
  case (Cons inp inps')
  show ?thesis
  proof (cases "int match < num_matches")
    case False
    with assms(1) Cons show ?thesis by simp
  next
    case True
    with assms(1) Cons obtain state r1 where
      "PlayMatch g s (length executables) inp (ResetErrorTracking r) = Inr (state, r1)"
      by (auto split: sum.splits)
    with True assms(2) Cons show ?thesis by simp
  qed
qed

lemma tournament_loop_recorded:
  assumes "True \<notin> set (disqualified res)"
    and "length (disqualified res) = length executables"
    and "tournament_loop g s executables thr num_matches match inps (r, res) = Inr (res', r')"
  shows "map terminal (matches res') =
           map terminal (matches res) @
             (if True \<in> set (disqualified res')
              then butlast (played_states g s executables thr num_matches match inps (r, res))
              else played_states g s executables thr num_matches match inps (r, res))"
  using assms
proof (induction inps arbitrary: match r res)
  case Nil
  then show ?case by (auto split: if_splits)
next
  case (Cons inp inps)
  let ?n = "length executables"
  show ?case
  proof (cases "int match < num_matches")
    case False
    with Cons.prems show ?thesis by auto
  next
    case True
    with Cons.prems(3) obtain state r1 where
      played: "PlayMatch g s ?n inp (ResetErrorTracking r) = Inr (state, r1)"
      by (auto split: sum.splits)
    let ?res1 = "update_statistics g ?n match state res"
    obtain returned r2 res2 where
      upd: "disqualification_update s executables thr (restart_replies inp) [0..<?n] (r1, ?res1)
              = Inr (returned, r2, res2)"
      by (rule tournament_loop_update [OF Cons.prems(3) True played])
    note keeps = disqualification_update_keeps [OF upd]
    have clean: "True \<notin> set (disqualified ?res1)"
      using Cons.prems(1) by (simp add: update_statistics_disqualified)
    note inv = disqualification_update_disqualified [OF clean upd]
    show ?thesis
    proof (cases returned)
      case True
      with \<open>int match < num_matches\<close> Cons.prems(3) played upd have res': "res' = res2"
        by simp
      have bound: "\<forall>pl \<in> set [0..<?n]. pl < length (disqualified ?res1)"
        using Cons.prems(2) by (simp add: update_statistics_disqualified)
      from upd True have "disqualification_update s executables thr (restart_replies inp)
          [0..<?n] (r1, ?res1) = Inr (True, r2, res2)"
        by simp
      from disqualification_update_returned [OF this bound]
      have "True \<in> set (disqualified res2)" .
      with True \<open>int match < num_matches\<close> played upd res' show ?thesis
        by (simp add: keeps update_statistics_matches)
    next
      case False
      let ?res3 = "res2\<lparr>matches := matches res2 @ [\<lparr>terminal = state, errors = bot_errors r2\<rparr>]\<rparr>"
      let ?rest = "played_states g s executables thr num_matches (Suc match) inps (r2, ?res3)"
      from False \<open>int match < num_matches\<close> Cons.prems(3) played upd
      have next_loop: "tournament_loop g s executables thr num_matches (Suc match) inps (r2, ?res3)
               = Inr (res', r')"
        by simp
      have clean3: "True \<notin> set (disqualified ?res3)"
        using inv False by simp
      have len3: "length (disqualified ?res3) = ?n"
        using Cons.prems(2) by (simp add: keeps update_statistics_disqualified)
      have all: "played_states g s executables thr num_matches match (inp # inps) (r, res)
                   = state # ?rest"
        using False \<open>int match < num_matches\<close> played upd by simp
      have rec3: "map terminal (matches ?res3) = map terminal (matches res) @ [state]"
        by (simp add: keeps update_statistics_matches)
      have "?rest \<noteq> []" if "True \<in> set (disqualified res')"
      proof
        assume "?rest = []"
        with next_loop have "res' = ?res3" by (rule tournament_loop_nothing_played)
        with that clean3 show False by simp
      qed
      then have "state # (if True \<in> set (disqualified res') then butlast ?rest else ?rest)
          = (if True \<in> set (disqualified res') then butlast (state # ?rest) else state # ?rest)"
        by simp
      with Cons.IH [OF clean3 len3 next_loop] rec3 all show ?thesis
        by simp
    qed
  qed
qed

text \<open>
  When \<open>PlayTournament\<close> returns, the recorded matches are the matches played if no bot is
  disqualified, and all of them but the last if one is.
\<close>

lemma PlayTournament_recorded:
  assumes run: "PlayTournament g s executables inp num_matches r = Inr (res, r')"
  shows "map terminal (matches res) =
           (if True \<in> set (disqualified res)
            then butlast (PlayTournament_played g s executables inp num_matches r)
            else PlayTournament_played g s executables inp num_matches r)"
proof -
  let ?n = "length executables"
  from run obtain start_ok r1 where
    start: "StartPlayers g executables (ready_replies inp) r = Inr (start_ok, r1)"
    by (auto simp: PlayTournament_def split: sum.splits)
  let ?checked = "fold (start_check start_ok num_matches) [0..<?n]
                    (True, TournamentResults_init ?n :: 'a TournamentResults)"
  let ?thr = "double_to_int (real_of_int num_matches * disqualification_rate s)"
  have clean: "True \<notin> set (disqualified (snd ?checked))"
    and len: "length (disqualified (snd ?checked)) = ?n"
    and none: "matches (snd ?checked) = []"
    by (simp_all add: fold_start_check_disqualified fold_start_check_matches
        TournamentResults_init_def)
  show ?thesis
  proof (cases "fst ?checked")
    case False
    with run start have "res = snd ?checked"
      by (simp add: PlayTournament_def case_prod_beta)
    with False start clean none show ?thesis
      by (simp add: PlayTournament_played_def case_prod_beta)
  next
    case True
    with run start
    have loop: "tournament_loop g s executables ?thr num_matches 0 (match_inputs inp)
                  (r1, snd ?checked) = Inr (res, r')"
      by (simp add: PlayTournament_def case_prod_beta)
    from True start have "PlayTournament_played g s executables inp num_matches r =
        played_states g s executables ?thr num_matches 0 (match_inputs inp) (r1, snd ?checked)"
      by (simp add: PlayTournament_played_def case_prod_beta)
    with tournament_loop_recorded [OF clean len loop] none show ?thesis
      by simp
  qed
qed

text \<open>
  C1, on scenario 4 of the specification with a single bot: three matches, a
  disqualification rate of 0.5, and a bot that corrupts matches 1 and 2. After match 2
  \<open>corrupted_matches[0]\<close> is 2, above the threshold 1, \<open>disqualified[0]\<close> is set and
  \<open>PlayTournament\<close> returns; match 3 is not played. Two matches were played, and the results
  hold one: \<^verbatim>\<open>return results\<close> comes before the \<^verbatim>\<open>push_back\<close> of the match just played.
\<close>

theorem scenario4_recorded_matches:
  "\<exists>res r'. PlayTournament solo_game half_settings [''bot0''] scenario4 3 Referee_init = Inr (res, r')
     \<and> corrupted_matches res = [2] \<and> disqualified res = [True] \<and> restarts res = [1]
     \<and> length (PlayTournament_played solo_game half_settings [''bot0''] scenario4 3 Referee_init) = 2
     \<and> length (matches res) = 1"
  by (simp add: PlayTournament_played_def referee_defs concrete_defs scenario4_def)

text \<open>
  C3, on a tournament of three matches in which the bot answers \<open>banana\<close> for \<open>start\<close> in
  the first match. When \<open>PlayMatch\<close> returns, the bot's \<open>protocol_error\<close> counter is 1. The
  match is corrupted, the bot is restarted, and \<open>ShutDownPlayer\<close> resets its counters
  before the match is recorded: the recorded errors of the match are all zero.
\<close>

theorem restart_erases_recorded_errors:
  "\<exists>started state r1 res r'.
     StartPlayers solo_game [''bot0''] (ready_replies bad_then_good) Referee_init
       = Inr ([True], started)
     \<and> PlayMatch solo_game half_settings 1 bad_match (ResetErrorTracking started) = Inr (state, r1)
     \<and> protocol_error (bot_errors r1 ! 0) = 1
     \<and> PlayTournament solo_game half_settings [''bot0''] bad_then_good 3 Referee_init = Inr (res, r')
     \<and> length (matches res) = 3 \<and> corrupted_matches res = [1] \<and> restarts res = [1]
     \<and> terminal (matches res ! 0) = state
     \<and> errors (matches res ! 0) = [BotErrors_init]"
  by (simp add: referee_defs concrete_defs bad_then_good_def)

subsection \<open>The reader threads of a restarted player\<close>

lemma last_list_update_before:
  assumes "Suc i < length xs"
  shows "last (xs[i := v]) = last xs"
proof -
  from assms have "xs \<noteq> []" and "i \<noteq> length xs - 1"
    by auto
  then show ?thesis by (simp add: last_list_update)
qed

lemma StartPlayer_threads:
  assumes "StartPlayer executables pl chn r = Inr (ok, r')"
    and "pl < length (channels r)" and "pl < length (threads_stdout r)"
    and "pl < length (threads_stderr r)"
  shows "threads_stdout r' ! pl = last (channels r')"
    and "threads_stderr r' ! pl = last (channels r')"
    and "channels r' ! pl = Some (MakeBotChannel pl (executables ! pl) (spawned r))"
    and "Suc pl < length (channels r) \<Longrightarrow> last (channels r') = last (channels r)"
  using assms
  by (auto simp: StartPlayer_def CheckResponse_def Let_def last_list_update_before
           split: if_splits)

text \<open>
  C2, on two bots started by \<open>StartPlayers\<close>, when Bot#0 is restarted. The new channel of
  Bot#0 is installed in slot 0, and both reader threads of slot 0 are started on
  \<^verbatim>\<open>channels_.back()\<close>, the channel of Bot#1: no thread reads the new channel of Bot#0.
\<close>

theorem restart_reader_threads:
  "\<exists>ok r r'. StartPlayers duel_game [''bot0'', ''bot1''] (\<lambda>pl. says ''ready'') Referee_init = Inr (ok, r)
     \<and> RestartPlayer [''bot0'', ''bot1''] 0 (says ''ready'') r = Inr r'
     \<and> channels r' ! 0 = Some \<lparr>bot_index_of = 0, executable_of = ''bot0'', serial = 2\<rparr>
     \<and> channels r' ! 1 = Some \<lparr>bot_index_of = 1, executable_of = ''bot1'', serial = 1\<rparr>
     \<and> threads_stdout r' ! 0 = Some \<lparr>bot_index_of = 1, executable_of = ''bot1'', serial = 1\<rparr>
     \<and> threads_stderr r' ! 0 = Some \<lparr>bot_index_of = 1, executable_of = ''bot1'', serial = 1\<rparr>"
  by (simp add: referee_defs concrete_defs)

end
